(* ===== verification/Prelude.thy ===== *)
theory Prelude
  imports Main "HOL-Library.AList" "HOL-Library.Multiset"
begin

text \<open>
  Shared vocabulary of the development: Go maps as association lists with an explicit range
  order, the functions of Go's \<open>slices\<close> package that the program calls, and the generic lemmas
  about them. Nothing here is specific to Eurus.

  A Go map is an association list with distinct keys. Go leaves the order of a \<open>range\<close> over a map
  unspecified, so every model function that ranges over a map takes the order as an argument: a
  \<open>range_order\<close> gives, for the k-th range statement an operation executes, a permutation of the
  keys. A theorem about such a function holds for every \<open>range_ok\<close> order.
\<close>

named_theorems gomap_simps \<open>lookups after an update, a deletion or a range over a Go map\<close>
named_theorems slice_simps \<open>equations for Go's slices package\<close>

section \<open>Go maps\<close>

type_synonym ('k, 'v) gomap = "('k \<times> 'v) list"

definition gomap_ok :: "('k, 'v) gomap \<Rightarrow> bool" where
  "gomap_ok m \<longleftrightarrow> distinct (map fst m)"

abbreviation gomap_keys :: "('k, 'v) gomap \<Rightarrow> 'k list" where
  "gomap_keys m \<equiv> map fst m"

text \<open>\<open>m[k]\<close> with the zero value of the element type for a missing key.\<close>

definition go_get :: "'v \<Rightarrow> ('k, 'v) gomap \<Rightarrow> 'k \<Rightarrow> 'v" where
  "go_get z m k = (case map_of m k of None \<Rightarrow> z | Some v \<Rightarrow> v)"

definition go_has :: "('k, 'v) gomap \<Rightarrow> 'k \<Rightarrow> bool" where
  "go_has m k \<longleftrightarrow> map_of m k \<noteq> None"

lemma gomap_ok_Nil [simp]: "gomap_ok []"
  by (simp add: gomap_ok_def)

lemma gomap_ok_update [simp]: "gomap_ok m \<Longrightarrow> gomap_ok (AList.update k v m)"
  by (simp add: gomap_ok_def distinct_update)

lemma gomap_ok_delete [simp]: "gomap_ok m \<Longrightarrow> gomap_ok (AList.delete k m)"
  by (simp add: gomap_ok_def distinct_delete)

lemma map_of_update_eq [gomap_simps, simp]:
  "map_of (AList.update k v m) x = (if x = k then Some v else map_of m x)"
  by (simp add: update_conv')

lemma map_of_delete_eq [gomap_simps, simp]:
  "map_of (AList.delete k m) x = (if x = k then None else map_of m x)"
  by (simp add: delete_conv')

lemma go_get_update [gomap_simps, simp]:
  "go_get z (AList.update k v m) x = (if x = k then v else go_get z m x)"
  by (simp add: go_get_def)

lemma go_get_delete [gomap_simps, simp]:
  "go_get z (AList.delete k m) x = (if x = k then z else go_get z m x)"
  by (simp add: go_get_def)

lemma go_get_Nil [simp]: "go_get z [] k = z"
  by (simp add: go_get_def)

lemma go_has_update [gomap_simps, simp]:
  "go_has (AList.update k v m) x \<longleftrightarrow> x = k \<or> go_has m x"
  by (simp add: go_has_def)

lemma go_has_delete [gomap_simps, simp]:
  "go_has (AList.delete k m) x \<longleftrightarrow> x \<noteq> k \<and> go_has m x"
  by (simp add: go_has_def)

lemma go_has_Nil [simp]: "\<not> go_has [] k"
  by (simp add: go_has_def)

lemma go_has_keys: "go_has m k \<longleftrightarrow> k \<in> set (gomap_keys m)"
  by (force simp: go_has_def map_of_eq_None_iff)

lemma go_get_key: "k \<in> set (gomap_keys m) \<Longrightarrow> map_of m k = Some (go_get z m k)"
  using go_has_keys [of m k] by (cases "map_of m k") (simp_all add: go_has_def go_get_def)

lemma map_of_in_keys: "map_of m k = Some v \<Longrightarrow> k \<in> set (gomap_keys m)"
  by (force dest: map_of_SomeD)

lemma set_gomap_delete: "set (AList.delete k m) = {x \<in> set m. fst x \<noteq> k}"
  by (auto simp: AList.delete_eq)

lemma delete_Nil_iff: "AList.delete k m = [] \<longleftrightarrow> (\<forall>x. x \<noteq> k \<longrightarrow> map_of m x = None)"
  by (force simp: AList.delete_eq filter_empty_conv map_of_eq_None_iff)

section \<open>Range orders\<close>

type_synonym 'k range_order = "nat \<Rightarrow> 'k list \<Rightarrow> 'k list"

definition range_ok :: "'k range_order \<Rightarrow> bool" where
  "range_ok rg \<longleftrightarrow> (\<forall>i ks. mset (rg i ks) = mset ks)"

text \<open>The range orders of a later part of an operation: its statements are numbered from \<open>n\<close> on.\<close>

definition rg_from :: "nat \<Rightarrow> 'k range_order \<Rightarrow> 'k range_order" where
  "rg_from n rg = (\<lambda>i. rg (n + i))"

definition rg_id :: "'k range_order" where
  "rg_id = (\<lambda>_ ks. ks)"

lemma range_ok_id [simp]: "range_ok rg_id"
  by (simp add: range_ok_def rg_id_def)

lemma range_ok_from [simp]: "range_ok rg \<Longrightarrow> range_ok (rg_from n rg)"
  by (simp add: range_ok_def rg_from_def)

lemma range_ok_rev: "range_ok (\<lambda>_. rev)"
  by (simp add: range_ok_def)

lemma range_ok_set [simp]: "range_ok rg \<Longrightarrow> set (rg i ks) = set ks"
  by (metis range_ok_def set_mset_mset)

lemma range_ok_distinct [simp]: "range_ok rg \<Longrightarrow> distinct (rg i ks) = distinct ks"
  by (metis range_ok_def distinct_count_atmost_1 mset_eq_setD)

lemma range_ok_length [simp]: "range_ok rg \<Longrightarrow> length (rg i ks) = length ks"
  by (metis range_ok_def size_mset)

section \<open>Loops over a map that treat each key on its own\<close>

text \<open>
  The contract of a loop body that visits one key of a map and may replace or delete the entry of
  that key only. Such a loop gives the same map for every range order; the laws are stated on the
  lookup function, so that a nested map can be read through its own lookup.
\<close>

locale keywise_loop =
  fixes body :: "'k \<Rightarrow> 'm \<Rightarrow> 'm"
    and look :: "'m \<Rightarrow> 'k \<Rightarrow> 'v"
    and eff :: "'k \<Rightarrow> 'v \<Rightarrow> 'v"
  assumes look_body: "look (body k m) x = (if x = k then eff k (look m k) else look m x)"
begin

lemma look_fold:
  "distinct ks \<Longrightarrow> look (fold body ks m) x = (if x \<in> set ks then eff x (look m x) else look m x)"
proof (induction ks arbitrary: m)
  case Nil
  then show ?case by simp
next
  case (Cons k ks)
  then show ?case by (auto simp: look_body)
qed

lemma look_fold_order:
  assumes "distinct ks" and "mset ks' = mset ks"
  shows "look (fold body ks' m) = look (fold body ks m)"
proof
  fix x
  from assms have "distinct ks'" "set ks' = set ks"
    by (metis distinct_count_atmost_1 mset_eq_setD) (metis assms(2) set_mset_mset)
  with assms(1) show "look (fold body ks' m) x = look (fold body ks m) x"
    by (simp add: look_fold)
qed

end

section \<open>Go's slices package\<close>

text \<open>\<open>slices.IndexFunc\<close> and \<open>slices.Index\<close>: the first index, \<open>None\<close> for the result -1.\<close>

fun IndexFunc :: "('a \<Rightarrow> bool) \<Rightarrow> 'a list \<Rightarrow> nat option" where
  "IndexFunc P [] = None"
| "IndexFunc P (x # xs) = (if P x then Some 0 else map_option Suc (IndexFunc P xs))"

text \<open>\<open>slices.Delete(xs, i, i+1)\<close>.\<close>

definition slices_Delete :: "'a list \<Rightarrow> nat \<Rightarrow> 'a list" where
  "slices_Delete xs i = take i xs @ drop (Suc i) xs"

definition delete_first :: "('a \<Rightarrow> bool) \<Rightarrow> 'a list \<Rightarrow> 'a list" where
  "delete_first P xs = (case IndexFunc P xs of None \<Rightarrow> xs | Some i \<Rightarrow> slices_Delete xs i)"

lemma IndexFunc_None [slice_simps]: "IndexFunc P xs = None \<longleftrightarrow> (\<forall>x\<in>set xs. \<not> P x)"
  by (induction xs) auto

lemma IndexFunc_Some: "IndexFunc P xs = Some i \<Longrightarrow> i < length xs \<and> P (xs ! i)"
  by (induction xs arbitrary: i) (auto split: if_splits)

lemma delete_first_Nil [simp, slice_simps]: "delete_first P [] = []"
  by (simp add: delete_first_def)

lemma delete_first_Cons [simp, slice_simps]:
  "delete_first P (x # xs) = (if P x then xs else x # delete_first P xs)"
  by (simp add: delete_first_def slices_Delete_def split: option.split)

lemma delete_first_id [slice_simps]: "\<forall>x\<in>set xs. \<not> P x \<Longrightarrow> delete_first P xs = xs"
  by (induction xs) auto

text \<open>Deleting the first match deletes every match when at most one element matches.\<close>

lemma delete_first_filter:
  assumes "distinct xs" and "\<And>x y. x \<in> set xs \<Longrightarrow> y \<in> set xs \<Longrightarrow> P x \<Longrightarrow> P y \<Longrightarrow> x = y"
  shows "delete_first P xs = filter (\<lambda>x. \<not> P x) xs"
  using assms
proof (induction xs)
  case Nil
  then show ?case by simp
next
  case (Cons x xs)
  show ?case
  proof (cases "P x")
    case True
    with Cons.prems have "\<forall>y\<in>set xs. \<not> P y" by (metis distinct.simps(2) list.set_intros)
    with True show ?thesis by simp
  next
    case False
    have "delete_first P xs = filter (\<lambda>x. \<not> P x) xs"
      using Cons.prems by (intro Cons.IH) auto
    with False show ?thesis by simp
  qed
qed

lemma delete_first_eq_remove1: "delete_first (\<lambda>x. x = a) xs = remove1 a xs"
  by (induction xs) auto

lemma set_delete_first_subset: "set (delete_first P xs) \<subseteq> set xs"
  by (induction xs) auto

lemma find_Some_mem: "find P xs = Some x \<Longrightarrow> x \<in> set xs \<and> P x"
  by (induction xs) (auto split: if_splits)

lemma find_None_iff': "find P xs = None \<longleftrightarrow> (\<forall>x\<in>set xs. \<not> P x)"
  by (induction xs) auto

lemma find_append: "find P (xs @ ys) = (case find P xs of None \<Rightarrow> find P ys | Some x \<Rightarrow> Some x)"
  by (induction xs) auto

lemma length_filter_eq:
  "distinct xs \<Longrightarrow> length (filter (\<lambda>x. x = a \<and> Q) xs) = (if a \<in> set xs \<and> Q then 1 else 0)"
  by (induction xs) (auto simp: filter_empty_conv)

end
