(* ===== verification/Descriptors.thy ===== *)
theory Descriptors
  imports Prelude
begin

text \<open>
  The records that gateways and services exchange (\<open>service-descriptor.go\<close>,
  \<open>gateway-descriptor.go\<close>, \<open>route-descriptor.go\<close>), the identifiers of \<open>generate-id.go\<close> and the
  error values of \<open>errors.go\<close>.

  Velaros patterns and msgpack are not part of this repository. A pattern is a value of a type
  variable; \<open>velaros.NewPattern\<close>, \<open>Pattern.String\<close>, \<open>msgpack.Marshal\<close> and \<open>msgpack.Unmarshal\<close> are
  arguments of the definitions that call them.
\<close>

section \<open>Route descriptors\<close>

record 'p RouteDescriptor =
  Pattern :: 'p

definition MarshalMsgpack ::
    "('p \<Rightarrow> string) \<Rightarrow> (string \<Rightarrow> 'e + 'b) \<Rightarrow> 'p RouteDescriptor \<Rightarrow> 'e + 'b" where
  "MarshalMsgpack pattern_String mp_marshal r = mp_marshal (pattern_String (Pattern r))"

text \<open>On an error the receiver is left as it was, so the result carries the receiver too.\<close>

definition UnmarshalMsgpack ::
    "('b \<Rightarrow> 'e + string) \<Rightarrow> (string \<Rightarrow> 'e + 'p) \<Rightarrow> 'b \<Rightarrow> 'p RouteDescriptor
      \<Rightarrow> 'e option \<times> 'p RouteDescriptor" where
  "UnmarshalMsgpack mp_unmarshal newPattern data r =
     (case mp_unmarshal data of
        Inl err \<Rightarrow> (Some err, r)
      | Inr patternStr \<Rightarrow>
          (case newPattern patternStr of
             Inl err \<Rightarrow> (Some err, r)
           | Inr pattern \<Rightarrow> (None, r\<lparr>Pattern := pattern\<rparr>)))"

definition NewRouteDescriptor :: "(string \<Rightarrow> 'e + 'p) \<Rightarrow> string \<Rightarrow> 'e + 'p RouteDescriptor" where
  "NewRouteDescriptor newPattern patternStr =
     (case newPattern patternStr of
        Inl err \<Rightarrow> Inl err
      | Inr pattern \<Rightarrow> Inr \<lparr>Pattern = pattern\<rparr>)"

section \<open>Service and gateway descriptors\<close>

text \<open>
  Times are nanoseconds as integers. Descriptors are shared by pointer between the lists of an
  index, so they live in a heap and are named by their address.
\<close>

record 'p ServiceDescriptor =
  sd_Name :: string
  sd_ID :: string
  sd_GatewayNames :: "string list"
  sd_RouteDescriptors :: "'p RouteDescriptor list"
  sd_LastSeenAt :: "int option"
  sd_socketIDs :: "string list"

type_synonym addr = nat

type_synonym 'p heap = "addr \<Rightarrow> 'p ServiceDescriptor"

record GatewayDescriptor =
  gd_Name :: string
  gd_ServiceDescriptors :: "addr list"

section \<open>Errors\<close>

text \<open>The error variables of \<open>errors.go\<close>, the errors made with \<open>fmt.Errorf\<close>, and errors of other code.\<close>

datatype go_error =
    ErrGatewayAlreadyConnected
  | ErrServiceAlreadyListening
  | ErrNoTransport
  | ErrSlowConsumer
  | ErrNoReachableInstances string
  | ErrWrapped string go_error
  | ErrOther string

text \<open>\<open>ErrWrapped m e\<close> is \<open>fmt.Errorf("m: %w", e)\<close>; \<open>errors.Is\<close> looks through the wrapping.\<close>

fun errors_Is :: "go_error \<Rightarrow> go_error \<Rightarrow> bool" where
  "errors_Is (ErrWrapped m e) target \<longleftrightarrow> ErrWrapped m e = target \<or> errors_Is e target"
| "errors_Is e target \<longleftrightarrow> e = target"

section \<open>Identifiers\<close>

definition idChars :: string where
  "idChars = ''abcdefghijklmnopqrstuvwxyzABCDEFGHIJKLMNOPQRSTUVWXYZ0123456789-_''"

text \<open>
  \<open>rand.N\<close> belongs to \<open>math/rand/v2\<close>: \<open>randN i n\<close> is the i-th draw below \<open>n\<close>. An index out of range
  would panic, which is \<open>None\<close>.
\<close>

definition go_index :: "'a list \<Rightarrow> nat \<Rightarrow> 'a option" where
  "go_index xs i = (if i < length xs then Some (xs ! i) else None)"

fun generate_loop :: "(nat \<Rightarrow> nat \<Rightarrow> nat) \<Rightarrow> nat list \<Rightarrow> string option" where
  "generate_loop randN [] = Some []"
| "generate_loop randN (i # is) =
     (case go_index idChars (randN i (length idChars)) of
        None \<Rightarrow> None
      | Some c \<Rightarrow> map_option (Cons c) (generate_loop randN is))"

definition generateID :: "(nat \<Rightarrow> nat \<Rightarrow> nat) \<Rightarrow> string option" where
  "generateID randN = generate_loop randN [0..<32]"

lemma length_idChars [simp]: "length idChars = 64"
  by (simp add: idChars_def)

lemma generate_loop_ok:
  assumes "\<And>i n. 0 < n \<Longrightarrow> randN i n < n"
  shows "\<exists>s. generate_loop randN is = Some s \<and> length s = length is \<and> set s \<subseteq> set idChars"
proof (induction "is")
  case Nil
  then show ?case by simp
next
  case (Cons i "is")
  have "randN i 64 < 64" using assms [of 64 i] by simp
  then have "idChars ! randN i 64 \<in> set idChars" by simp
  with Cons \<open>randN i 64 < 64\<close> show ?case by (auto simp: go_index_def)
qed

end
