(* ===== verification/Wire.thy ===== *)
theory Wire
  imports Descriptors "HOL-Library.Word"
begin

text \<open>
  The values that cross the \<open>Transport\<close> interface of \<open>transport.go\<close>. \<open>SocketMessage\<close>,
  \<open>ConnectionInfo\<close> and the close statuses are Velaros types; the records hold the fields the
  program reads and writes. The values of a message's metadata map have an arbitrary type.
\<close>

type_synonym byte = "8 word"

record 'v SocketMessage =
  sm_Type :: int
  sm_RawData :: "byte list"
  sm_Data :: "byte list"
  sm_Meta :: "(string, 'v) gomap"

record ConnectionInfo =
  ci_Headers :: "(string, string list) gomap"
  ci_RemoteAddr :: string

datatype Status =
    StatusGoingAway
  | StatusPolicyViolation
  | StatusInternalError
  | StatusOther int

end
