(* ===== verification/Indexer.thy ===== *)
theory Indexer
  imports Descriptors
begin

text \<open>
  The gateway's service index, \<open>gateway-service-indexer.go\<close>: the record
  \<open>GatewayServiceIndexer\<close>, one definition per method, and their executable equations. Every method
  holds the index's mutex from its first to its last statement, so each is one atomic function of
  the heap of descriptors and the index. Methods that always return a nil error return the state
  alone.
\<close>

section \<open>State\<close>

record GatewayServiceIndexer =
  closed :: bool
  descriptors :: "addr list"
  servicesByName :: "(string, addr list) gomap"
  socketToInstance :: "(string, (string, string) gomap) gomap"

type_synonym 'p istate = "'p heap \<times> GatewayServiceIndexer"

definition NewGatewayServiceIndexer :: GatewayServiceIndexer where
  "NewGatewayServiceIndexer =
     \<lparr>closed = False, descriptors = [], servicesByName = [], socketToInstance = []\<rparr>"

definition gsi_Close :: "GatewayServiceIndexer \<Rightarrow> GatewayServiceIndexer" where
  "gsi_Close r = r\<lparr>closed := True, descriptors := [], servicesByName := [], socketToInstance := []\<rparr>"

definition IsClosed :: "GatewayServiceIndexer \<Rightarrow> bool" where
  "IsClosed r = closed r"

section \<open>Registration\<close>

text \<open>
  \<open>descriptor\<close> is the address of the announced descriptor. An instance already registered under the
  name is updated in place, through the shared pointer; otherwise the announced pointer itself is
  stored in both lists.
\<close>

definition SetServiceDescriptor :: "int \<Rightarrow> addr \<Rightarrow> 'p istate \<Rightarrow> 'p istate" where
  "SetServiceDescriptor now descriptor st = (case st of (h, r) \<Rightarrow>
     if closed r then (h, r)
     else
       let name = sd_Name (h descriptor);
           instances = go_get [] (servicesByName r) name
       in case find (\<lambda>existing. sd_ID (h existing) = sd_ID (h descriptor)) instances of
            Some existing \<Rightarrow>
              (h(existing := (h existing)
                   \<lparr>sd_RouteDescriptors := sd_RouteDescriptors (h descriptor),
                    sd_LastSeenAt := Some now\<rparr>), r)
          | None \<Rightarrow>
              (h(descriptor := (h descriptor)\<lparr>sd_LastSeenAt := Some now\<rparr>),
               r\<lparr>servicesByName := AList.update name (instances @ [descriptor]) (servicesByName r),
                 descriptors := descriptors r @ [descriptor]\<rparr>))"

section \<open>Removal\<close>

text \<open>The first loop: the name under which the instance was found (empty if none) and the new map.\<close>

fun unset_name :: "'p heap \<Rightarrow> string \<Rightarrow> string list \<Rightarrow> (string, addr list) gomap
    \<Rightarrow> string \<times> (string, addr list) gomap" where
  "unset_name h iid [] m = ('''', m)"
| "unset_name h iid (name # names) m =
     (let instances = go_get [] m name
      in case IndexFunc (\<lambda>d. sd_ID (h d) = iid) instances of
           Some i \<Rightarrow>
             (let rest = slices_Delete instances i;
                  m' = AList.update name rest m
              in (name, if length rest = 0 then AList.delete name m' else m'))
         | None \<Rightarrow> unset_name h iid names m)"

text \<open>The body of the last loop, for one socket.\<close>

definition unset_socket :: "string \<Rightarrow> string \<Rightarrow> string
    \<Rightarrow> (string, (string, string) gomap) gomap \<Rightarrow> (string, (string, string) gomap) gomap" where
  "unset_socket serviceName iid socketID m =
     (case map_of m socketID of
        None \<Rightarrow> m
      | Some services \<Rightarrow>
          (if map_of services serviceName = Some iid
           then let services' = AList.delete serviceName services
                in if length services' = 0 then AList.delete socketID m
                   else AList.update socketID services' m
           else m))"

definition unsetServiceLocked :: "string range_order \<Rightarrow> string \<Rightarrow> 'p istate \<Rightarrow> 'p istate" where
  "unsetServiceLocked rg iid st = (case st of (h, r) \<Rightarrow>
     if closed r then (h, r)
     else
       let (serviceName, byName) =
             unset_name h iid (rg 0 (gomap_keys (servicesByName r))) (servicesByName r);
           r1 = r\<lparr>servicesByName := byName,
                  descriptors := delete_first (\<lambda>d. sd_ID (h d) = iid) (descriptors r)\<rparr>
       in if serviceName = '''' then (h, r1)
          else (h, r1\<lparr>socketToInstance :=
                  fold (unset_socket serviceName iid)
                    (rg 1 (gomap_keys (socketToInstance r1))) (socketToInstance r1)\<rparr>))"

definition UnsetService :: "string range_order \<Rightarrow> string \<Rightarrow> 'p istate \<Rightarrow> 'p istate" where
  "UnsetService rg iid st = unsetServiceLocked rg iid st"

section \<open>Snapshots and pruning\<close>

text \<open>\<open>now.Sub(*d.LastSeenAt) <= threshold\<close>, false when the descriptor was never seen.\<close>

definition is_fresh :: "int \<Rightarrow> int \<Rightarrow> 'p ServiceDescriptor \<Rightarrow> bool" where
  "is_fresh now threshold d =
     (case sd_LastSeenAt d of None \<Rightarrow> False | Some seen \<Rightarrow> now - seen \<le> threshold)"

definition ServiceDescriptors :: "'p istate \<Rightarrow> addr list" where
  "ServiceDescriptors st = (if closed (snd st) then [] else descriptors (snd st))"

definition FreshServiceDescriptors :: "int \<Rightarrow> int \<Rightarrow> 'p istate \<Rightarrow> addr list" where
  "FreshServiceDescriptors now threshold st = (case st of (h, r) \<Rightarrow>
     if closed r then [] else filter (\<lambda>d. is_fresh now threshold (h d)) (descriptors r))"

text \<open>
  One step of the loop that collects the sockets of a stale instance: \<open>acc\<close> is the map \<open>seen\<close>, as
  the list of its keys, and the slice \<open>affectedSocketIDs\<close>. The innermost range only asks whether
  some value of the socket's map is the stale instance, so its order plays no part.
\<close>

definition prune_collect :: "(string, (string, string) gomap) gomap \<Rightarrow> string \<Rightarrow> string
    \<Rightarrow> string list \<times> string list \<Rightarrow> string list \<times> string list" where
  "prune_collect m staleID socketID acc = (case acc of (seen, affected) \<Rightarrow>
     if list_ex (\<lambda>(_, instanceID). instanceID = staleID) (go_get [] m socketID)
        \<and> socketID \<notin> set seen
     then (socketID # seen, affected @ [socketID])
     else acc)"

fun prune_affected :: "string range_order \<Rightarrow> nat \<Rightarrow> (string, (string, string) gomap) gomap
    \<Rightarrow> string list \<Rightarrow> string list \<times> string list \<Rightarrow> string list \<times> string list" where
  "prune_affected rg n m [] acc = acc"
| "prune_affected rg n m (staleID # staleIDs) acc =
     prune_affected rg (Suc n) m staleIDs
       (fold (prune_collect m staleID) (rg n (gomap_keys m)) acc)"

fun prune_unset :: "string range_order \<Rightarrow> nat \<Rightarrow> string list \<Rightarrow> 'p istate \<Rightarrow> 'p istate" where
  "prune_unset rg n [] st = st"
| "prune_unset rg n (iid # ids) st =
     prune_unset rg (n + 2) ids (unsetServiceLocked (rg_from n rg) iid st)"

definition PruneStaleServices :: "string range_order \<Rightarrow> int \<Rightarrow> int \<Rightarrow> 'p istate
    \<Rightarrow> string list \<times> string list \<times> 'p istate" where
  "PruneStaleServices rg now threshold st = (case st of (h, r) \<Rightarrow>
     if closed r then ([], [], (h, r))
     else
       let staleIDs =
             map (\<lambda>d. sd_ID (h d)) (filter (\<lambda>d. \<not> is_fresh now threshold (h d)) (descriptors r));
           affected = snd (prune_affected rg 0 (socketToInstance r) staleIDs ([], []))
       in (staleIDs, affected, prune_unset rg (length staleIDs) staleIDs (h, r)))"

section \<open>Routing\<close>

text \<open>
  \<open>mtch pattern path\<close> stands for the boolean result of Velaros' \<open>Pattern.Match\<close>.
\<close>

fun resolve_names :: "('p \<Rightarrow> string \<Rightarrow> bool) \<Rightarrow> string \<Rightarrow> 'p heap \<Rightarrow> (string, addr list) gomap
    \<Rightarrow> string list \<Rightarrow> string \<times> bool" where
  "resolve_names mtch path h m [] = ('''', False)"
| "resolve_names mtch path h m (serviceName # names) =
     (if list_ex (\<lambda>instance.
            list_ex (\<lambda>route. mtch (Pattern route) path) (sd_RouteDescriptors (h instance)))
          (go_get [] m serviceName)
      then (serviceName, True)
      else resolve_names mtch path h m names)"

definition ResolveService :: "('p \<Rightarrow> string \<Rightarrow> bool) \<Rightarrow> string range_order \<Rightarrow> string \<Rightarrow> 'p istate
    \<Rightarrow> string \<times> bool" where
  "ResolveService mtch rg path st = (case st of (h, r) \<Rightarrow>
     if closed r then ('''', False)
     else resolve_names mtch path h (servicesByName r) (rg 0 (gomap_keys (servicesByName r))))"

section \<open>Pinning sockets to instances\<close>

text \<open>The loop that looks for the instance with the fewest sockets; the first one wins a tie.\<close>

fun least_loaded :: "'p heap \<Rightarrow> addr option \<Rightarrow> addr list \<Rightarrow> addr option" where
  "least_loaded h targetInstance [] = targetInstance"
| "least_loaded h targetInstance (instance # instances) =
     (case targetInstance of
        None \<Rightarrow> least_loaded h (Some instance) instances
      | Some t \<Rightarrow>
          (if length (sd_socketIDs (h t)) > length (sd_socketIDs (h instance))
           then least_loaded h (Some instance) instances
           else least_loaded h (Some t) instances))"

text \<open>The result: the instance's ID (empty for none), whether the pin is new, and the error.\<close>

definition MapSocket :: "string \<Rightarrow> string \<Rightarrow> 'p istate
    \<Rightarrow> (string \<times> bool \<times> go_error option) \<times> 'p istate" where
  "MapSocket serviceName socketID st = (case st of (h, r) \<Rightarrow>
     if closed r then (('''', False, None), (h, r))
     else
       case map_of (go_get [] (socketToInstance r) socketID) serviceName of
         Some instanceID \<Rightarrow> ((instanceID, False, None), (h, r))
       | None \<Rightarrow>
           (let instances = go_get [] (servicesByName r) serviceName
            in if \<not> go_has (servicesByName r) serviceName \<or> length instances = 0
               then (('''', False, None), (h, r))
               else
                 case least_loaded h None instances of
                   None \<Rightarrow> (('''', False, Some (ErrNoReachableInstances serviceName)), (h, r))
                 | Some t \<Rightarrow>
                     (let h' = h(t := (h t)\<lparr>sd_socketIDs := sd_socketIDs (h t) @ [socketID]\<rparr>);
                          services = go_get [] (socketToInstance r) socketID
                      in ((sd_ID (h t), True, None),
                          (h', r\<lparr>socketToInstance :=
                             AList.update socketID
                               (AList.update serviceName (sd_ID (h t)) services)
                               (socketToInstance r)\<rparr>)))))"

text \<open>The body of the loop of \<open>UnmapSocket\<close>, for one service of the socket.\<close>

definition unmap_service :: "(string, addr list) gomap \<Rightarrow> (string, string) gomap \<Rightarrow> string
    \<Rightarrow> string \<Rightarrow> 'p heap \<Rightarrow> 'p heap" where
  "unmap_service byName services socketID serviceName h =
     (case map_of services serviceName of
        None \<Rightarrow> h
      | Some instanceID \<Rightarrow>
          (case map_of byName serviceName of
             None \<Rightarrow> h
           | Some instances \<Rightarrow>
               (case find (\<lambda>d. sd_ID (h d) = instanceID) instances of
                  None \<Rightarrow> h
                | Some d \<Rightarrow>
                    h(d := (h d)\<lparr>sd_socketIDs :=
                        delete_first (\<lambda>x. x = socketID) (sd_socketIDs (h d))\<rparr>))))"

definition UnmapSocket :: "string range_order \<Rightarrow> string \<Rightarrow> 'p istate \<Rightarrow> 'p istate" where
  "UnmapSocket rg socketID st = (case st of (h, r) \<Rightarrow>
     if closed r then (h, r)
     else
       case map_of (socketToInstance r) socketID of
         None \<Rightarrow> (h, r)
       | Some services \<Rightarrow>
           (fold (unmap_service (servicesByName r) services socketID)
              (rg 0 (gomap_keys services)) h,
            r\<lparr>socketToInstance := AList.delete socketID (socketToInstance r)\<rparr>))"

text \<open>The inner loop appends the socket once per service, whatever the order of its services.\<close>

fun collect_sockets :: "(string, (string, string) gomap) gomap \<Rightarrow> string range_order \<Rightarrow> nat
    \<Rightarrow> string list \<Rightarrow> (string, string list) gomap \<Rightarrow> (string, string list) gomap" where
  "collect_sockets m rg n [] result = result"
| "collect_sockets m rg n (socketID # socketIDs) result =
     collect_sockets m rg (Suc n) socketIDs
       (let services = go_get [] m socketID
        in fold (\<lambda>serviceName res.
                  let instanceID = go_get '''' services serviceName
                  in AList.update instanceID (go_get [] res instanceID @ [socketID]) res)
             (rg n (gomap_keys services)) result)"

definition SocketIDsByServiceInstance :: "string range_order \<Rightarrow> 'p istate
    \<Rightarrow> (string, string list) gomap" where
  "SocketIDsByServiceInstance rg st = (case st of (h, r) \<Rightarrow>
     if closed r then []
     else collect_sockets (socketToInstance r) rg 1
            (rg 0 (gomap_keys (socketToInstance r))) [])"

end
