(* ===== verification/IndexerInv.thy ===== *)
theory IndexerInv
  imports Indexer
begin

text \<open>
  The invariant of the service index and its preservation by every method. The invariant says that
  the two lists and the two maps describe one registry: the instances under a name are exactly the
  descriptors with that name, identifiers are unique, every pin names a registered instance, and an
  instance's \<open>socketIDs\<close> are exactly the sockets pinned to it.
\<close>

named_theorems gsi_effects \<open>what each method of the index does to its lists, maps and pins\<close>

section \<open>Reading the index\<close>

definition insts :: "GatewayServiceIndexer \<Rightarrow> string \<Rightarrow> addr list" where
  "insts r n = go_get [] (servicesByName r) n"

definition pinned_in :: "(string, (string, string) gomap) gomap \<Rightarrow> string \<Rightarrow> string \<Rightarrow> string option" where
  "pinned_in m s = map_of (go_get [] m s)"

definition pinned :: "GatewayServiceIndexer \<Rightarrow> string \<Rightarrow> string \<Rightarrow> string option" where
  "pinned r = pinned_in (socketToInstance r)"

definition sockets_ok :: "(string, (string, string) gomap) gomap \<Rightarrow> bool" where
  "sockets_ok m \<longleftrightarrow> gomap_ok m
     \<and> (\<forall>s services. map_of m s = Some services \<longrightarrow> gomap_ok services \<and> services \<noteq> [])"

definition maps_ok :: "GatewayServiceIndexer \<Rightarrow> bool" where
  "maps_ok r \<longleftrightarrow> gomap_ok (servicesByName r) \<and> sockets_ok (socketToInstance r)
     \<and> (closed r \<longrightarrow> descriptors r = [] \<and> servicesByName r = [] \<and> socketToInstance r = [])"

definition lists_ok :: "'p heap \<Rightarrow> GatewayServiceIndexer \<Rightarrow> bool" where
  "lists_ok h r \<longleftrightarrow> distinct (descriptors r)
     \<and> inj_on (\<lambda>d. sd_ID (h d)) (set (descriptors r))
     \<and> (\<forall>d\<in>set (descriptors r). sd_Name (h d) \<noteq> '''' \<and> sd_ID (h d) \<noteq> '''')
     \<and> (\<forall>n. distinct (insts r n) \<and> set (insts r n) = {d \<in> set (descriptors r). sd_Name (h d) = n}
            \<and> (go_has (servicesByName r) n \<longrightarrow> insts r n \<noteq> []))"

definition pins_ok :: "'p heap \<Rightarrow> GatewayServiceIndexer \<Rightarrow> bool" where
  "pins_ok h r \<longleftrightarrow>
     (\<forall>s n i. pinned r s n = Some i \<longrightarrow> (\<exists>d\<in>set (descriptors r). sd_Name (h d) = n \<and> sd_ID (h d) = i))
     \<and> (\<forall>d\<in>set (descriptors r). distinct (sd_socketIDs (h d))
          \<and> set (sd_socketIDs (h d)) = {s. pinned r s (sd_Name (h d)) = Some (sd_ID (h d))})"

definition gsi_ok :: "'p istate \<Rightarrow> bool" where
  "gsi_ok st \<longleftrightarrow> maps_ok (snd st) \<and> lists_ok (fst st) (snd st) \<and> pins_ok (fst st) (snd st)"

lemma pinned_in_simps [simp]:
  "pinned_in (AList.update s sv m) x = (if x = s then map_of sv else pinned_in m x)"
  "pinned_in (AList.delete s m) x = (if x = s then Map.empty else pinned_in m x)"
  "pinned_in [] x = Map.empty"
  by (auto simp: pinned_in_def)

lemma sockets_ok_update: "sockets_ok m \<Longrightarrow> gomap_ok sv \<Longrightarrow> sv \<noteq> [] \<Longrightarrow> sockets_ok (AList.update s sv m)"
  by (simp add: sockets_ok_def)

lemma sockets_ok_delete: "sockets_ok m \<Longrightarrow> sockets_ok (AList.delete s m)"
  by (simp add: sockets_ok_def)

lemma sockets_ok_get: "sockets_ok m \<Longrightarrow> gomap_ok (go_get [] m s)"
  by (cases "map_of m s") (simp_all add: sockets_ok_def go_get_def)

lemma gsi_ok_pair: "gsi_ok (h, r) \<longleftrightarrow> maps_ok r \<and> lists_ok h r \<and> pins_ok h r"
  by (simp add: gsi_ok_def)

lemma lists_ok_ID_inj:
  "lists_ok h r \<Longrightarrow> d \<in> set (descriptors r) \<Longrightarrow> e \<in> set (descriptors r) \<Longrightarrow> sd_ID (h d) = sd_ID (h e) \<Longrightarrow> d = e"
  by (auto simp: lists_ok_def dest: inj_onD)

lemma lists_ok_insts:
  "lists_ok h r \<Longrightarrow> d \<in> set (insts r n) \<longleftrightarrow> d \<in> set (descriptors r) \<and> sd_Name (h d) = n"
  by (simp add: lists_ok_def)

lemma lists_ok_names: "lists_ok h r \<Longrightarrow> d \<in> set (descriptors r) \<Longrightarrow> go_has (servicesByName r) (sd_Name (h d))"
  using lists_ok_insts [of h r d "sd_Name (h d)"]
  by (cases "map_of (servicesByName r) (sd_Name (h d))") (auto simp: insts_def go_get_def go_has_def)

section \<open>Creation and closing\<close>

lemma NewGatewayServiceIndexer_ok: "gsi_ok (h, NewGatewayServiceIndexer)"
  by (simp add: gsi_ok_def maps_ok_def sockets_ok_def lists_ok_def pins_ok_def NewGatewayServiceIndexer_def insts_def
      pinned_def)

lemma gsi_Close_ok: "gsi_ok (h, gsi_Close r)"
  by (simp add: gsi_ok_def maps_ok_def sockets_ok_def lists_ok_def pins_ok_def gsi_Close_def insts_def pinned_def)

section \<open>Registration\<close>

text \<open>
  What an announced pointer must satisfy: it is freshly allocated, carries no sockets, its name and
  ID are not empty, and its ID is not in use under another name.
\<close>

definition announce_ok :: "'p istate \<Rightarrow> addr \<Rightarrow> bool" where
  "announce_ok st d \<longleftrightarrow> d \<notin> set (descriptors (snd st))
     \<and> sd_socketIDs (fst st d) = [] \<and> sd_Name (fst st d) \<noteq> '''' \<and> sd_ID (fst st d) \<noteq> ''''
     \<and> (\<forall>e\<in>set (descriptors (snd st)). sd_ID (fst st e) = sd_ID (fst st d) \<longrightarrow> sd_Name (fst st e) = sd_Name (fst st d))"

text \<open>Allocation of a descriptor outside the index.\<close>

lemma gsi_ok_alloc:
  assumes "d \<notin> set (descriptors r)"
  shows "gsi_ok (h(d := x), r) \<longleftrightarrow> gsi_ok (h, r)"
proof -
  have same: "(h(d := x)) e = h e" if "e \<in> set (descriptors r)" for e
    using assms that by auto
  have "lists_ok (h(d := x)) r \<longleftrightarrow> lists_ok h r"
    unfolding lists_ok_def using same
    by (intro conj_cong refl ball_cong all_cong inj_on_cong) (auto simp del: fun_upd_apply)
  moreover have "pins_ok (h(d := x)) r \<longleftrightarrow> pins_ok h r"
    unfolding pins_ok_def by (simp add: same del: fun_upd_apply cong: ball_cong bex_cong)
  ultimately show ?thesis by (simp add: gsi_ok_pair)
qed

text \<open>An update of a registered descriptor that keeps its name, ID and sockets.\<close>

lemma gsi_ok_refresh:
  assumes "sd_Name x = sd_Name (h d)" "sd_ID x = sd_ID (h d)" "sd_socketIDs x = sd_socketIDs (h d)"
  shows "gsi_ok (h(d := x), r) \<longleftrightarrow> gsi_ok (h, r)"
proof -
  have "sd_Name ((h(d := x)) e) = sd_Name (h e)" "sd_ID ((h(d := x)) e) = sd_ID (h e)"
    "sd_socketIDs ((h(d := x)) e) = sd_socketIDs (h e)" for e
    using assms by auto
  then show ?thesis by (simp only: gsi_ok_pair lists_ok_def pins_ok_def)
qed

lemma Set_existing:
  assumes "gsi_ok (h, r)" "announce_ok (h, r) d" "\<not> closed r"
    and "e \<in> set (descriptors r)" "sd_ID (h e) = sd_ID (h d)"
  shows "SetServiceDescriptor now d (h, r) =
    (h(e := (h e)\<lparr>sd_RouteDescriptors := sd_RouteDescriptors (h d), sd_LastSeenAt := Some now\<rparr>), r)"
proof -
  have L: "lists_ok h r" using assms(1) by (simp add: gsi_ok_pair)
  have e: "e \<in> set (insts r (sd_Name (h d)))"
    using assms(2,4,5) L by (auto simp: announce_ok_def lists_ok_insts)
  have "find (\<lambda>x. sd_ID (h x) = sd_ID (h d)) (insts r (sd_Name (h d))) = Some e"
  proof (cases "find (\<lambda>x. sd_ID (h x) = sd_ID (h d)) (insts r (sd_Name (h d)))")
    case None
    with e assms(5) show ?thesis by (auto simp: find_None_iff')
  next
    case (Some x)
    with L assms(4,5) show ?thesis
      by (auto dest!: find_Some_mem simp: lists_ok_insts intro: lists_ok_ID_inj)
  qed
  with assms(3) show ?thesis by (simp add: SetServiceDescriptor_def insts_def Let_def)
qed

lemma Set_new:
  assumes "gsi_ok (h, r)" "\<not> closed r" "\<And>e. e \<in> set (descriptors r) \<Longrightarrow> sd_ID (h e) \<noteq> sd_ID (h d)"
  shows "SetServiceDescriptor now d (h, r) =
    (h(d := (h d)\<lparr>sd_LastSeenAt := Some now\<rparr>),
     r\<lparr>servicesByName := AList.update (sd_Name (h d)) (insts r (sd_Name (h d)) @ [d]) (servicesByName r),
       descriptors := descriptors r @ [d]\<rparr>)"
proof -
  have L: "lists_ok h r" using assms(1) by (simp add: gsi_ok_pair)
  have "find (\<lambda>x. sd_ID (h x) = sd_ID (h d)) (insts r (sd_Name (h d))) = None"
    using assms(3) L by (auto simp: find_None_iff' lists_ok_insts)
  with assms(2) show ?thesis by (simp add: SetServiceDescriptor_def insts_def Let_def)
qed

lemma register_new_ok:
  assumes "gsi_ok (h, r)" "announce_ok (h, r) d" "\<not> closed r"
    "\<And>e. e \<in> set (descriptors r) \<Longrightarrow> sd_ID (h e) \<noteq> sd_ID (h d)"
  shows "gsi_ok (h, r\<lparr>servicesByName := AList.update (sd_Name (h d)) (insts r (sd_Name (h d)) @ [d]) (servicesByName r),
       descriptors := descriptors r @ [d]\<rparr>)" (is "gsi_ok (h, ?r)")
proof -
  have M: "maps_ok r" and L: "lists_ok h r" and P: "pins_ok h r"
    using assms(1) by (auto simp: gsi_ok_pair)
  have d: "d \<notin> set (descriptors r)" "sd_socketIDs (h d) = []" "sd_Name (h d) \<noteq> ''''" "sd_ID (h d) \<noteq> ''''"
    using assms(2) by (auto simp: announce_ok_def)
  have I: "insts ?r n = (if n = sd_Name (h d) then insts r n @ [d] else insts r n)" for n
    by (simp add: insts_def)
  have pin: "pinned ?r = pinned r" by (simp add: pinned_def)
  have new: "sd_ID (h d) \<noteq> sd_ID (h e)" if "e \<in> set (descriptors r)" for e
    using assms(4) [OF that] by simp
  have nopin: "pinned r s n \<noteq> Some (sd_ID (h d))" for s n
    using P assms(4) by (force simp: pins_ok_def)
  have "maps_ok ?r" using M assms(3) by (simp add: maps_ok_def)
  moreover have "lists_ok h ?r"
    using L d new assms(4) unfolding lists_ok_def I by (auto simp: inj_on_def)
  moreover have "pins_ok h ?r"
    using P d nopin unfolding pins_ok_def pin by auto
  ultimately show ?thesis by (simp add: gsi_ok_pair)
qed

lemma SetServiceDescriptor_ok:
  assumes "gsi_ok st" "announce_ok st d"
  shows "gsi_ok (SetServiceDescriptor now d st)"
proof -
  obtain h r where st: "st = (h, r)" by (cases st)
  show ?thesis
  proof (cases "closed r")
    case True
    with assms(1) show ?thesis by (simp add: st SetServiceDescriptor_def)
  next
    case open': False
    show ?thesis
    proof (cases "\<exists>e\<in>set (descriptors r). sd_ID (h e) = sd_ID (h d)")
      case True
      then obtain e where "e \<in> set (descriptors r)" "sd_ID (h e) = sd_ID (h d)" by blast
      with assms open' show ?thesis
        by (simp add: st Set_existing gsi_ok_refresh)
    next
      case False
      with assms open' show ?thesis
        by (simp add: st Set_new gsi_ok_refresh register_new_ok)
    qed
  qed
qed

section \<open>Removal\<close>

interpretation unset_loop: keywise_loop "unset_socket name iid" pinned_in
  "\<lambda>_ f n. if n = name \<and> f n = Some iid then None else f n" for name iid
proof (unfold_locales, rule ext)
  fix k m x n
  show "pinned_in (unset_socket name iid k m) x n =
    (if x = k then \<lambda>n. if n = name \<and> pinned_in m k n = Some iid then None else pinned_in m k n
     else pinned_in m x) n"
  proof (cases "map_of m k")
    case None
    then show ?thesis by (simp add: unset_socket_def pinned_in_def go_get_def)
  next
    case (Some sv)
    then have "pinned_in m k = map_of sv" by (simp add: pinned_in_def go_get_def)
    with Some show ?thesis
      by (cases "AList.delete name sv = []")
        (auto simp: unset_socket_def delete_Nil_iff Let_def)
  qed
qed

lemma unset_socket_ok: "sockets_ok m \<Longrightarrow> sockets_ok (unset_socket name iid k m)"
  by (auto simp: sockets_ok_def unset_socket_def Let_def split: option.split if_splits)

lemma fold_unset_socket_ok: "sockets_ok m \<Longrightarrow> sockets_ok (fold (unset_socket name iid) ks m)"
  by (induction ks arbitrary: m) (simp_all add: unset_socket_ok)

lemma unset_name_none:
  "\<forall>n\<in>set ks. \<forall>d\<in>set (go_get [] m n). sd_ID (h d) \<noteq> iid \<Longrightarrow> unset_name h iid ks m = ('''', m)"
proof (induction ks)
  case Nil
  then show ?case by simp
next
  case (Cons n ks)
  then have "IndexFunc (\<lambda>d. sd_ID (h d) = iid) (go_get [] m n) = None"
    by (simp add: IndexFunc_None)
  with Cons show ?case by simp
qed

lemma unset_name_some:
  assumes "N \<in> set ks" "d \<in> set (go_get [] m N)" "sd_ID (h d) = iid"
    and "\<forall>n\<in>set ks. n \<noteq> N \<longrightarrow> (\<forall>e\<in>set (go_get [] m n). sd_ID (h e) \<noteq> iid)"
  shows "unset_name h iid ks m =
    (let rest = delete_first (\<lambda>d. sd_ID (h d) = iid) (go_get [] m N); m' = AList.update N rest m
     in (N, if length rest = 0 then AList.delete N m' else m'))"
  using assms
proof (induction ks)
  case Nil
  then show ?case by simp
next
  case (Cons n ks)
  show ?case
  proof (cases "n = N")
    case True
    from Cons.prems obtain i where "IndexFunc (\<lambda>d. sd_ID (h d) = iid) (go_get [] m N) = Some i"
      using IndexFunc_None [of "\<lambda>d. sd_ID (h d) = iid" "go_get [] m N"] by auto
    with True show ?thesis by (simp add: Let_def delete_first_def)
  next
    case False
    with Cons.prems have "IndexFunc (\<lambda>d. sd_ID (h d) = iid) (go_get [] m n) = None"
      by (auto simp: IndexFunc_None)
    with False Cons show ?thesis by simp
  qed
qed

text \<open>The removal of an instance, read off the index.\<close>

definition unset_effect :: "string \<Rightarrow> 'p istate \<Rightarrow> 'p istate \<Rightarrow> bool" where
  "unset_effect iid st st' \<longleftrightarrow>
     (let h = fst st; r = snd st; r' = snd st'; keep = (\<lambda>d. sd_ID (h d) \<noteq> iid)
      in fst st' = h \<and> closed r' = closed r
         \<and> descriptors r' = filter keep (descriptors r)
         \<and> (\<forall>n. insts r' n = filter keep (insts r n))
         \<and> (\<forall>n. go_has (servicesByName r') n \<longrightarrow> insts r' n \<noteq> [])
         \<and> (\<forall>s n. pinned r' s n = (if pinned r s n = Some iid then None else pinned r s n))
         \<and> maps_ok r')"

lemma unset_effect_known:
  assumes ok: "gsi_ok (h, r)" and op: "\<not> closed r" and rg: "range_ok rg"
    and d: "d \<in> set (descriptors r)" "sd_ID (h d) = iid"
  shows "unset_effect iid (h, r) (unsetServiceLocked rg iid (h, r))"
proof -
  have M: "maps_ok r" and L: "lists_ok h r" and P: "pins_ok h r"
    using ok by (auto simp: gsi_ok_pair)
  let ?N = "sd_Name (h d)" and ?P = "\<lambda>e. sd_ID (h e) = iid"
  let ?rest = "delete_first ?P (insts r ?N)"
  let ?m' = "AList.update ?N ?rest (servicesByName r)"
  let ?byName = "if length ?rest = 0 then AList.delete ?N ?m' else ?m'"
  have only: "e = d" if "e \<in> set (descriptors r)" "sd_ID (h e) = iid" for e
    using lists_ok_ID_inj [OF L that(1) d(1)] that(2) d(2) by simp
  have N: "?N \<noteq> ''''" using L d by (auto simp: lists_ok_def)
  have name: "unset_name h iid (rg 0 (gomap_keys (servicesByName r))) (servicesByName r) = (?N, ?byName)"
  proof -
    have "?N \<in> set (rg 0 (gomap_keys (servicesByName r)))"
      using lists_ok_names [OF L d(1)] rg by (simp add: go_has_keys)
    moreover have "d \<in> set (go_get [] (servicesByName r) ?N)"
      using L d by (simp add: lists_ok_insts flip: insts_def)
    moreover have "\<forall>n\<in>set (rg 0 (gomap_keys (servicesByName r))). n \<noteq> ?N \<longrightarrow>
        (\<forall>e\<in>set (go_get [] (servicesByName r) n). sd_ID (h e) \<noteq> iid)"
      using L only by (auto simp: lists_ok_insts simp flip: insts_def)
    ultimately show ?thesis
      using d(2) by (simp add: unset_name_some [of ?N _ d] Let_def insts_def)
  qed
  have filter_eq: "delete_first ?P xs = filter (\<lambda>e. sd_ID (h e) \<noteq> iid) xs"
    if "distinct xs" "set xs \<subseteq> set (descriptors r)" for xs
    using that only by (intro delete_first_filter) (auto dest: only)
  have rest: "?rest = filter (\<lambda>e. sd_ID (h e) \<noteq> iid) (insts r ?N)"
    using L by (intro filter_eq) (auto simp: lists_ok_def)
  have ds: "delete_first ?P (descriptors r) = filter (\<lambda>e. sd_ID (h e) \<noteq> iid) (descriptors r)"
    using L by (intro filter_eq) (auto simp: lists_ok_def)
  have others: "filter (\<lambda>e. sd_ID (h e) \<noteq> iid) (insts r n) = insts r n" if "n \<noteq> ?N" for n
    using L only that by (auto simp: filter_id_conv lists_ok_insts)
  have nopin: "pinned r s n = Some iid \<Longrightarrow> n = ?N" for s n
    using P only by (force simp: pins_ok_def)
  obtain r' where r': "r' = r\<lparr>servicesByName := ?byName,
      descriptors := delete_first ?P (descriptors r),
      socketToInstance := fold (unset_socket ?N iid)
        (rg 1 (gomap_keys (socketToInstance r))) (socketToInstance r)\<rparr>" by blast
  then have eq: "unsetServiceLocked rg iid (h, r) = (h, r')"
    using op N name by (simp add: unsetServiceLocked_def)
  have insts': "insts r' n = filter (\<lambda>e. sd_ID (h e) \<noteq> iid) (insts r n)" for n
    using rest others [of n] by (auto simp: r' insts_def)
  have has': "go_has (servicesByName r') n \<Longrightarrow> insts r' n \<noteq> []" for n
    using L by (auto simp: r' insts_def lists_ok_def split: if_splits)
  have dist: "distinct (rg 1 (gomap_keys (socketToInstance r)))"
    using M rg by (simp add: maps_ok_def sockets_ok_def gomap_ok_def)
  have "pinned r' s n = (if pinned r s n = Some iid then None else pinned r s n)" for s n
  proof (cases "s \<in> set (gomap_keys (socketToInstance r))")
    case True
    with rg dist nopin show ?thesis by (auto simp: r' pinned_def unset_loop.look_fold)
  next
    case False
    then have "pinned r s n = None"
      by (simp add: pinned_def pinned_in_def go_get_def map_of_eq_None_iff [THEN iffD2])
    with False rg dist show ?thesis by (simp add: r' pinned_def unset_loop.look_fold)
  qed
  moreover have "maps_ok r'"
    using M op by (simp add: r' maps_ok_def fold_unset_socket_ok)
  ultimately show ?thesis
    using insts' has' by (simp add: unset_effect_def eq Let_def) (simp add: r' ds)
qed

lemma unset_effect_unknown:
  assumes ok: "gsi_ok (h, r)" and op: "\<not> closed r" and rg: "range_ok rg"
    and d: "\<forall>d\<in>set (descriptors r). sd_ID (h d) \<noteq> iid"
  shows "unset_effect iid (h, r) (unsetServiceLocked rg iid (h, r))"
proof -
  have M: "maps_ok r" and L: "lists_ok h r" and P: "pins_ok h r"
    using ok by (auto simp: gsi_ok_pair)
  have "\<forall>n\<in>set (rg 0 (gomap_keys (servicesByName r))).
      \<forall>d\<in>set (go_get [] (servicesByName r) n). sd_ID (h d) \<noteq> iid"
    using L d by (auto simp: lists_ok_insts simp flip: insts_def)
  then have "unsetServiceLocked rg iid (h, r) = (h, r)"
    using op d by (simp add: unsetServiceLocked_def unset_name_none delete_first_id)
  moreover have "filter (\<lambda>d. sd_ID (h d) \<noteq> iid) (insts r n) = insts r n" for n
    using L d by (auto simp: filter_id_conv lists_ok_insts)
  moreover have "filter (\<lambda>d. sd_ID (h d) \<noteq> iid) (descriptors r) = descriptors r"
    using d by (auto simp: filter_id_conv)
  moreover have "pinned r s n \<noteq> Some iid" for s n
    using P d by (force simp: pins_ok_def)
  ultimately show ?thesis using M L by (simp add: unset_effect_def lists_ok_def)
qed

lemma unset_effect [gsi_effects]:
  assumes "gsi_ok st" "\<not> closed (snd st)" "range_ok rg"
  shows "unset_effect iid st (unsetServiceLocked rg iid st)"
  using assms unset_effect_known [of "fst st" "snd st" rg]
    unset_effect_unknown [of "fst st" "snd st" rg iid] by (cases st) fastforce

lemma unset_effect_ok:
  assumes "gsi_ok st" "unset_effect iid st st'"
  shows "gsi_ok st'"
proof -
  obtain h r where st: "st = (h, r)" by (cases st)
  obtain r' where st': "st' = (h, r')" using assms(2) by (cases st') (simp add: unset_effect_def st Let_def)
  have M: "maps_ok r" and L: "lists_ok h r" and P: "pins_ok h r"
    using assms(1) by (auto simp: st gsi_ok_pair)
  have E: "descriptors r' = filter (\<lambda>d. sd_ID (h d) \<noteq> iid) (descriptors r)"
    "insts r' n = filter (\<lambda>d. sd_ID (h d) \<noteq> iid) (insts r n)"
    "go_has (servicesByName r') n \<Longrightarrow> insts r' n \<noteq> []"
    "pinned r' s n = (if pinned r s n = Some iid then None else pinned r s n)"
    "maps_ok r'" for n s
    using assms(2) by (auto simp: unset_effect_def st st' Let_def)
  have "lists_ok h r'"
    using L E(3) unfolding lists_ok_def E(1,2) by (auto intro: inj_on_subset)
  moreover have "pins_ok h r'"
    using P unfolding pins_ok_def E(1,4) by (fastforce split: if_splits)
  ultimately show ?thesis using E(5) by (simp add: st' gsi_ok_pair)
qed

lemma unsetServiceLocked_ok:
  assumes "gsi_ok st" "range_ok rg"
  shows "gsi_ok (unsetServiceLocked rg iid st)"
proof (cases "closed (snd st)")
  case True
  then have "unsetServiceLocked rg iid st = st" by (cases st) (simp add: unsetServiceLocked_def)
  with assms(1) show ?thesis by simp
next
  case False
  from unset_effect [OF assms(1) False assms(2)] show ?thesis
    by (rule unset_effect_ok [OF assms(1)])
qed

section \<open>Pruning\<close>

text \<open>Removing a list of instances one after the other, under any range orders.\<close>

definition unset_all_effect :: "string set \<Rightarrow> 'p istate \<Rightarrow> 'p istate \<Rightarrow> bool" where
  "unset_all_effect gone st st' \<longleftrightarrow>
     (let h = fst st; r = snd st; r' = snd st'
      in fst st' = h \<and> closed r' = closed r
         \<and> descriptors r' = filter (\<lambda>d. sd_ID (h d) \<notin> gone) (descriptors r)
         \<and> (\<forall>n. insts r' n = filter (\<lambda>d. sd_ID (h d) \<notin> gone) (insts r n))
         \<and> (\<forall>s n. pinned r' s n = (case pinned r s n of None \<Rightarrow> None
              | Some i \<Rightarrow> if i \<in> gone then None else Some i)))"

lemma prune_unset_effect [gsi_effects]:
  assumes "gsi_ok st" "\<not> closed (snd st)" "range_ok rg"
  shows "gsi_ok (prune_unset rg n ids st) \<and> unset_all_effect (set ids) st (prune_unset rg n ids st)"
  using assms
proof (induction ids arbitrary: n st)
  case Nil
  then show ?case by (auto simp: unset_all_effect_def Let_def split: option.split)
next
  case (Cons i ids)
  let ?st1 = "unsetServiceLocked (rg_from n rg) i st"
  have E: "unset_effect i st ?st1" using Cons.prems by (intro unset_effect) simp_all
  have ok1: "gsi_ok ?st1" using Cons.prems by (simp add: unsetServiceLocked_ok)
  have op1: "\<not> closed (snd ?st1)" using E Cons.prems(2) by (auto simp: unset_effect_def Let_def)
  note IH = Cons.IH [OF ok1 op1 Cons.prems(3), of "n + 2"]
  then show ?case
    using E by (auto simp: unset_all_effect_def unset_effect_def Let_def split: option.split)
qed

lemma fold_prune_collect:
  assumes "distinct (snd acc)" "set (fst acc) = set (snd acc)"
  shows "distinct (snd (fold (prune_collect m i) ks acc))
    \<and> set (fst (fold (prune_collect m i) ks acc)) = set (snd (fold (prune_collect m i) ks acc))
    \<and> set (snd (fold (prune_collect m i) ks acc)) =
        set (snd acc) \<union> {s \<in> set ks. \<exists>n. (n, i) \<in> set (go_get [] m s)}"
  using assms
proof (induction ks arbitrary: acc)
  case Nil
  then show ?case by simp
next
  case (Cons k ks)
  let ?acc = "prune_collect m i k acc"
  have "distinct (snd ?acc)" "set (fst ?acc) = set (snd ?acc)"
    "set (snd ?acc) = set (snd acc) \<union> {s. s = k \<and> (\<exists>n. (n, i) \<in> set (go_get [] m s))}"
    using Cons.prems by (auto simp: prune_collect_def list_ex_iff split: prod.splits)
  with Cons.IH [of ?acc] show ?case by auto
qed

lemma prune_affected_set:
  assumes "range_ok rg" "distinct (snd acc)" "set (fst acc) = set (snd acc)"
  shows "distinct (snd (prune_affected rg n m ids acc))
    \<and> set (snd (prune_affected rg n m ids acc)) =
        set (snd acc) \<union> {s \<in> set (gomap_keys m). \<exists>n. \<exists>i\<in>set ids. (n, i) \<in> set (go_get [] m s)}"
  using assms
proof (induction ids arbitrary: n acc)
  case Nil
  then show ?case by simp
next
  case (Cons i ids)
  let ?acc = "fold (prune_collect m i) (rg n (gomap_keys m)) acc"
  note F = fold_prune_collect [OF Cons.prems(2,3), of m i "rg n (gomap_keys m)"]
  have "distinct (snd ?acc)" "set (fst ?acc) = set (snd ?acc)" using F by auto
  note IH = Cons.IH [OF Cons.prems(1) this, of "Suc n"]
  have "set (snd ?acc) = set (snd acc) \<union> {s \<in> set (gomap_keys m). \<exists>n. (n, i) \<in> set (go_get [] m s)}"
    using F Cons.prems(1) by simp
  with IH show ?case by auto
qed

text \<open>The sockets found are those with some pin to one of the instances.\<close>

lemma affected_pinned:
  assumes "maps_ok r"
  shows "{s \<in> set (gomap_keys (socketToInstance r)). \<exists>n. \<exists>i\<in>I. (n, i) \<in> set (go_get [] (socketToInstance r) s)}
    = {s. \<exists>n. \<exists>i\<in>I. pinned r s n = Some i}"
proof -
  have "(n, i) \<in> set (go_get [] (socketToInstance r) s) \<longleftrightarrow> pinned r s n = Some i" for s n i
    using assms
    by (cases "map_of (socketToInstance r) s")
      (auto simp: pinned_def pinned_in_def go_get_def maps_ok_def sockets_ok_def gomap_ok_def)
  moreover have "s \<in> set (gomap_keys (socketToInstance r))" if "pinned r s n = Some i" for s n i
    using that by (cases "map_of (socketToInstance r) s")
      (auto simp: pinned_def pinned_in_def go_get_def dest: map_of_in_keys)
  ultimately show ?thesis by auto
qed

definition stale_ids :: "int \<Rightarrow> int \<Rightarrow> 'p istate \<Rightarrow> string list" where
  "stale_ids now threshold st = map (\<lambda>d. sd_ID (fst st d))
     (filter (\<lambda>d. \<not> is_fresh now threshold (fst st d)) (descriptors (snd st)))"

lemma PruneStaleServices_eq:
  assumes "gsi_ok st" "\<not> closed (snd st)" "range_ok rg" "PruneStaleServices rg now threshold st = (ids, affected, st')"
  shows "ids = stale_ids now threshold st" and "gsi_ok st'"
    and "unset_all_effect (set ids) st st'" and "distinct affected"
    and "set affected = {s. \<exists>n. \<exists>i\<in>set ids. pinned (snd st) s n = Some i}"
proof -
  obtain h r where st: "st = (h, r)" by (cases st)
  have M: "maps_ok r" using assms(1) by (simp add: st gsi_ok_pair)
  have eqs: "ids = stale_ids now threshold st"
    "affected = snd (prune_affected rg 0 (socketToInstance r) ids ([], []))"
    "st' = prune_unset rg (length ids) ids st"
    using assms(2,4) by (auto simp: PruneStaleServices_def st stale_ids_def Let_def)
  show "ids = stale_ids now threshold st" by (rule eqs)
  show "gsi_ok st'" "unset_all_effect (set ids) st st'"
    using prune_unset_effect [OF assms(1-3)] by (simp_all add: eqs(3))
  show "distinct affected" "set affected = {s. \<exists>n. \<exists>i\<in>set ids. pinned (snd st) s n = Some i}"
    using prune_affected_set [OF assms(3), of "([], [])" 0 "socketToInstance r" ids]
      affected_pinned [OF M, of "set ids"]
    by (simp_all add: eqs(2) st)
qed

section \<open>Pinning\<close>

lemma lists_ok_cong:
  assumes "\<And>d. sd_Name (h' d) = sd_Name (h d)" "\<And>d. sd_ID (h' d) = sd_ID (h d)"
  shows "lists_ok h' r = lists_ok h r"
  by (simp only: lists_ok_def assms)

lemma least_loaded_Some:
  "\<exists>t. least_loaded h (Some a) ds = Some t \<and> t \<in> insert a (set ds)
     \<and> (\<forall>d\<in>insert a (set ds). length (sd_socketIDs (h t)) \<le> length (sd_socketIDs (h d)))"
proof (induction ds arbitrary: a)
  case Nil
  then show ?case by simp
next
  case (Cons d ds)
  let ?b = "if length (sd_socketIDs (h a)) > length (sd_socketIDs (h d)) then d else a"
  from Cons.IH [of ?b] obtain t where t: "least_loaded h (Some ?b) ds = Some t"
    "t \<in> insert ?b (set ds)"
    "\<forall>e\<in>insert ?b (set ds). length (sd_socketIDs (h t)) \<le> length (sd_socketIDs (h e))" by blast
  have "length (sd_socketIDs (h t)) \<le> length (sd_socketIDs (h a))"
    "length (sd_socketIDs (h t)) \<le> length (sd_socketIDs (h d))"
    using t(3) by (auto split: if_splits)
  with t show ?case by (auto split: if_splits)
qed

lemma least_loaded_None:
  assumes "ds \<noteq> []"
  obtains t where "least_loaded h None ds = Some t" "t \<in> set ds"
    "\<And>d. d \<in> set ds \<Longrightarrow> length (sd_socketIDs (h t)) \<le> length (sd_socketIDs (h d))"
proof (cases ds)
  case Nil
  with assms show ?thesis by simp
next
  case (Cons a as)
  then show ?thesis using least_loaded_Some [of h a as] that by auto
qed

lemma MapSocket_closed: "closed r \<Longrightarrow> MapSocket n s (h, r) = (('''', False, None), (h, r))"
  by (simp add: MapSocket_def)

lemma MapSocket_pinned:
  "\<not> closed r \<Longrightarrow> pinned r s n = Some i \<Longrightarrow> MapSocket n s (h, r) = ((i, False, None), (h, r))"
  by (simp add: MapSocket_def pinned_def pinned_in_def)

lemma MapSocket_no_instance:
  "\<not> closed r \<Longrightarrow> pinned r s n = None \<Longrightarrow> insts r n = [] \<Longrightarrow> MapSocket n s (h, r) = (('''', False, None), (h, r))"
  by (simp add: MapSocket_def pinned_def pinned_in_def insts_def)

text \<open>A new pin: which instance is chosen and what changes.\<close>

definition new_pin :: "string \<Rightarrow> string \<Rightarrow> addr \<Rightarrow> 'p istate \<Rightarrow> 'p istate" where
  "new_pin n s t st = (case st of (h, r) \<Rightarrow>
     (h(t := (h t)\<lparr>sd_socketIDs := sd_socketIDs (h t) @ [s]\<rparr>),
      r\<lparr>socketToInstance := AList.update s
          (AList.update n (sd_ID (h t)) (go_get [] (socketToInstance r) s)) (socketToInstance r)\<rparr>))"

lemma MapSocket_new:
  assumes "\<not> closed r" "pinned r s n = None" "insts r n \<noteq> []"
  obtains t where "MapSocket n s (h, r) = ((sd_ID (h t), True, None), new_pin n s t (h, r))"
    "t \<in> set (insts r n)"
    "\<And>d. d \<in> set (insts r n) \<Longrightarrow> length (sd_socketIDs (h t)) \<le> length (sd_socketIDs (h d))"
proof -
  from assms(3) obtain t where t: "least_loaded h None (insts r n) = Some t" "t \<in> set (insts r n)"
    "\<And>d. d \<in> set (insts r n) \<Longrightarrow> length (sd_socketIDs (h t)) \<le> length (sd_socketIDs (h d))"
    by (rule least_loaded_None [where h = h]) blast
  have "go_has (servicesByName r) n"
    using assms(3) by (auto simp: insts_def go_get_def go_has_def split: option.splits)
  with assms t(1) have "MapSocket n s (h, r) = ((sd_ID (h t), True, None), new_pin n s t (h, r))"
    by (simp add: MapSocket_def new_pin_def pinned_def pinned_in_def insts_def Let_def)
  with t(2,3) that show ?thesis by blast
qed

lemma update_not_Nil [simp]: "AList.update k v m \<noteq> []"
  by (induction m) auto

lemma pinned_new_pin [gsi_effects]:
  "pinned (snd (new_pin n s t (h, r))) s' n' = (if s' = s \<and> n' = n then Some (sd_ID (h t)) else pinned r s' n')"
  by (auto simp: new_pin_def pinned_def pinned_in_def)

lemma new_pin_simps [simp]:
  "descriptors (snd (new_pin n s t (h, r))) = descriptors r"
  "servicesByName (snd (new_pin n s t (h, r))) = servicesByName r"
  "insts (snd (new_pin n s t (h, r))) = insts r"
  "sd_ID (fst (new_pin n s t (h, r)) d) = sd_ID (h d)"
  "sd_Name (fst (new_pin n s t (h, r)) d) = sd_Name (h d)"
  by (simp_all add: new_pin_def insts_def fun_eq_iff)

lemma new_pin_ok:
  assumes "gsi_ok (h, r)" "pinned r s n = None" "t \<in> set (insts r n)"
  shows "gsi_ok (new_pin n s t (h, r))"
proof -
  have M: "maps_ok r" and L: "lists_ok h r" and P: "pins_ok h r"
    using assms(1) by (auto simp: gsi_ok_pair)
  obtain h' r' where new: "new_pin n s t (h, r) = (h', r')" by (cases "new_pin n s t (h, r)")
  have h': "sd_Name (h' d) = sd_Name (h d)" "sd_ID (h' d) = sd_ID (h d)"
    "sd_socketIDs (h' d) = (if d = t then sd_socketIDs (h d) @ [s] else sd_socketIDs (h d))" for d
    using new by (auto simp: new_pin_def)
  have r': "descriptors r' = descriptors r" "servicesByName r' = servicesByName r" "insts r' = insts r"
    using new by (auto simp: new_pin_def insts_def fun_eq_iff)
  have pin: "pinned r' s' n' = (if s' = s \<and> n' = n then Some (sd_ID (h t)) else pinned r s' n')" for s' n'
    using pinned_new_pin [of n s t h r s' n'] by (simp add: new)
  have t: "t \<in> set (descriptors r)" "sd_Name (h t) = n"
    using L assms(3) by (auto simp: lists_ok_insts)
  have "sockets_ok (socketToInstance r)" using M by (simp add: maps_ok_def)
  then have "sockets_ok (AList.update s (AList.update n (sd_ID (h t)) (go_get [] (socketToInstance r) s))
      (socketToInstance r))"
    by (simp add: sockets_ok_update sockets_ok_get)
  then have "sockets_ok (socketToInstance r')" using new by (auto simp: new_pin_def)
  moreover have "\<not> closed r'"
    using M t(1) new by (auto simp: maps_ok_def new_pin_def)
  ultimately have "maps_ok r'" using M by (simp add: maps_ok_def r')
  moreover have "lists_ok h' r'"
    using L by (simp add: lists_ok_def h' r')
  moreover have "pins_ok h' r'"
  proof -
    have other: "sd_ID (h d) \<noteq> sd_ID (h t)" if "d \<in> set (descriptors r)" "d \<noteq> t" for d
      using lists_ok_ID_inj [OF L that(1) t(1)] that(2) by blast
    have "distinct (sd_socketIDs (h' d)) \<and>
        set (sd_socketIDs (h' d)) = {s'. pinned r' s' (sd_Name (h d)) = Some (sd_ID (h d))}"
      if d: "d \<in> set (descriptors r)" for d
    proof (cases "d = t")
      case True
      with P t assms(2) show ?thesis by (auto simp: pins_ok_def h' pin)
    next
      case False
      with P d other [OF d False] assms(2) show ?thesis by (auto simp: pins_ok_def h' pin)
    qed
    moreover have "\<exists>d\<in>set (descriptors r). sd_Name (h d) = n' \<and> sd_ID (h d) = i"
      if "pinned r' s' n' = Some i" for s' n' i
      using P t that by (auto simp: pins_ok_def pin split: if_splits)
    ultimately show ?thesis by (simp add: pins_ok_def h'(1,2) r')
  qed
  ultimately show ?thesis by (simp add: new gsi_ok_pair)
qed

lemma MapSocket_ok:
  assumes "gsi_ok st"
  shows "gsi_ok (snd (MapSocket n s st))"
proof -
  obtain h r where st: "st = (h, r)" by (cases st)
  consider "closed r" | i where "\<not> closed r" "pinned r s n = Some i"
    | "\<not> closed r" "pinned r s n = None" "insts r n = []"
    | "\<not> closed r" "pinned r s n = None" "insts r n \<noteq> []" by fastforce
  then show ?thesis
  proof cases
    case 4
    then obtain t where "MapSocket n s (h, r) = ((sd_ID (h t), True, None), new_pin n s t (h, r))"
      "t \<in> set (insts r n)" by (rule MapSocket_new)
    with assms 4(2) show ?thesis by (simp add: st new_pin_ok)
  qed (use assms in \<open>simp_all add: st MapSocket_closed MapSocket_pinned MapSocket_no_instance\<close>)
qed

section \<open>Unpinning\<close>

definition drop_socket :: "string \<Rightarrow> 'p ServiceDescriptor \<Rightarrow> 'p ServiceDescriptor" where
  "drop_socket s d = d\<lparr>sd_socketIDs := delete_first (\<lambda>x. x = s) (sd_socketIDs d)\<rparr>"

lemma drop_socket_simps [simp]:
  "sd_Name (drop_socket s d) = sd_Name d" "sd_ID (drop_socket s d) = sd_ID d"
  "sd_RouteDescriptors (drop_socket s d) = sd_RouteDescriptors d"
  "sd_LastSeenAt (drop_socket s d) = sd_LastSeenAt d"
  "sd_socketIDs (drop_socket s d) = remove1 s (sd_socketIDs d)"
  by (simp_all add: drop_socket_def delete_first_eq_remove1)

lemma unmap_service_insts:
  "unmap_service (servicesByName r) sv s k h =
    (case map_of sv k of None \<Rightarrow> h
     | Some i \<Rightarrow> (case find (\<lambda>d. sd_ID (h d) = i) (insts r k) of None \<Rightarrow> h
                 | Some d \<Rightarrow> h(d := drop_socket s (h d))))"
  by (cases "map_of (servicesByName r) k")
    (simp_all add: unmap_service_def insts_def go_get_def drop_socket_def split: option.split)

lemma unmap_service_eq:
  assumes "lists_ok h r"
  shows "unmap_service (servicesByName r) sv s k h d =
    (if d \<in> set (descriptors r) \<and> sd_Name (h d) = k \<and> map_of sv k = Some (sd_ID (h d))
     then drop_socket s (h d) else h d)"
proof (cases "map_of sv k")
  case None
  then show ?thesis by (simp add: unmap_service_insts)
next
  case (Some i)
  show ?thesis
  proof (cases "find (\<lambda>d. sd_ID (h d) = i) (insts r k)")
    case None
    then have "\<forall>d\<in>set (insts r k). sd_ID (h d) \<noteq> i" by (simp add: find_None_iff')
    with Some None assms show ?thesis
      by (auto simp: unmap_service_insts lists_ok_insts)
  next
    case found: (Some e)
    then have e: "e \<in> set (descriptors r)" "sd_Name (h e) = k" "sd_ID (h e) = i"
      using assms by (auto dest!: find_Some_mem simp: lists_ok_insts)
    have "unmap_service (servicesByName r) sv s k h = h(e := drop_socket s (h e))"
      using Some found by (simp add: unmap_service_insts)
    moreover have "d \<notin> set (descriptors r) \<or> sd_ID (h d) \<noteq> i" if "d \<noteq> e"
      using lists_ok_ID_inj [OF assms _ e(1), of d] that e(3) by auto
    ultimately show ?thesis using e Some by (cases "d = e") auto
  qed
qed

lemma fold_unmap_service:
  assumes "lists_ok h r" "distinct ks"
  shows "fold (unmap_service (servicesByName r) sv s) ks h d =
    (if d \<in> set (descriptors r) \<and> sd_Name (h d) \<in> set ks \<and> map_of sv (sd_Name (h d)) = Some (sd_ID (h d))
     then drop_socket s (h d) else h d)"
  using assms
proof (induction ks arbitrary: h)
  case Nil
  then show ?case by simp
next
  case (Cons k ks)
  let ?h = "unmap_service (servicesByName r) sv s k h"
  have eq: "sd_Name (?h d) = sd_Name (h d)" "sd_ID (?h d) = sd_ID (h d)" for d
    by (simp_all add: unmap_service_eq [OF Cons.prems(1)])
  have L: "lists_ok ?h r" using Cons.prems(1) lists_ok_cong [of ?h h r] eq by blast
  have IH: "fold (unmap_service (servicesByName r) sv s) ks ?h d =
    (if d \<in> set (descriptors r) \<and> sd_Name (h d) \<in> set ks \<and> map_of sv (sd_Name (h d)) = Some (sd_ID (h d))
     then drop_socket s (?h d) else ?h d)"
    using Cons.IH [OF L] Cons.prems(2) unfolding eq by simp
  have step: "?h d = (if d \<in> set (descriptors r) \<and> sd_Name (h d) = k \<and> map_of sv k = Some (sd_ID (h d))
     then drop_socket s (h d) else h d)"
    by (rule unmap_service_eq [OF Cons.prems(1)])
  have "k \<notin> set ks" using Cons.prems(2) by simp
  then show ?case
    unfolding fold_Cons comp_apply IH step by (cases "sd_Name (h d) = k") simp_all
qed

text \<open>What \<open>UnmapSocket\<close> does: every pin of the socket goes, in the map and in the instances.\<close>

lemma UnmapSocket_effect [gsi_effects]:
  assumes "gsi_ok (h, r)" "\<not> closed r" "range_ok rg" "UnmapSocket rg s (h, r) = (h', r')"
  shows "h' d = (if d \<in> set (descriptors r) \<and> pinned r s (sd_Name (h d)) = Some (sd_ID (h d))
      then drop_socket s (h d) else h d)"
    and "descriptors r' = descriptors r" and "servicesByName r' = servicesByName r" and "closed r' = closed r"
    and "pinned r' s' = (if s' = s then Map.empty else pinned r s')"
    and "maps_ok r'"
proof -
  have M: "maps_ok r" and L: "lists_ok h r" using assms(1) by (auto simp: gsi_ok_pair)
  have keys: "x \<in> set (gomap_keys sv)" if "map_of sv x = Some y" for x y and sv :: "(string, string) gomap"
    using that by (rule map_of_in_keys)
  have all: "h' d = (if d \<in> set (descriptors r) \<and> pinned r s (sd_Name (h d)) = Some (sd_ID (h d))
      then drop_socket s (h d) else h d)
    \<and> descriptors r' = descriptors r \<and> servicesByName r' = servicesByName r \<and> closed r' = closed r
    \<and> pinned r' s' = (if s' = s then Map.empty else pinned r s') \<and> maps_ok r'"
  proof (cases "map_of (socketToInstance r) s")
    case None
    with M assms(2,4) show ?thesis
      by (auto simp: UnmapSocket_def pinned_def pinned_in_def go_get_def)
  next
    case (Some sv)
    have sv: "gomap_ok sv" using M Some by (auto simp: maps_ok_def sockets_ok_def)
    have "h' = fold (unmap_service (servicesByName r) sv s) (rg 0 (gomap_keys sv)) h"
      using assms(2,4) Some by (simp add: UnmapSocket_def)
    moreover have "distinct (rg 0 (gomap_keys sv))" "set (rg 0 (gomap_keys sv)) = set (gomap_keys sv)"
      using sv assms(3) by (simp_all add: gomap_ok_def)
    ultimately have "h' d = (if d \<in> set (descriptors r) \<and> sd_Name (h d) \<in> set (gomap_keys sv)
        \<and> map_of sv (sd_Name (h d)) = Some (sd_ID (h d)) then drop_socket s (h d) else h d)"
      using fold_unmap_service [OF L, of "rg 0 (gomap_keys sv)" sv s d] by simp
    moreover have "r' = r\<lparr>socketToInstance := AList.delete s (socketToInstance r)\<rparr>"
      using assms(2,4) Some by (simp add: UnmapSocket_def)
    moreover have "pinned r s = map_of sv" using Some by (simp add: pinned_def pinned_in_def go_get_def)
    ultimately show ?thesis
      using M keys [of sv] by (auto simp: pinned_def maps_ok_def sockets_ok_def)
  qed
  then show "h' d = (if d \<in> set (descriptors r) \<and> pinned r s (sd_Name (h d)) = Some (sd_ID (h d))
      then drop_socket s (h d) else h d)"
    "descriptors r' = descriptors r" "servicesByName r' = servicesByName r" "closed r' = closed r"
    "pinned r' s' = (if s' = s then Map.empty else pinned r s')" "maps_ok r'" by simp_all
qed

lemma UnmapSocket_ok:
  assumes "gsi_ok st" "range_ok rg"
  shows "gsi_ok (UnmapSocket rg s st)"
proof -
  obtain h r where st: "st = (h, r)" by (cases st)
  obtain h' r' where eq: "UnmapSocket rg s (h, r) = (h', r')" by (cases "UnmapSocket rg s (h, r)")
  show ?thesis
  proof (cases "closed r")
    case True
    with assms(1) show ?thesis by (simp add: st UnmapSocket_def)
  next
    case False
    note E = UnmapSocket_effect [OF assms(1)[unfolded st] False assms(2) eq]
    have L: "lists_ok h r" and P: "pins_ok h r" using assms(1) by (auto simp: st gsi_ok_pair)
    have h': "sd_Name (h' d) = sd_Name (h d)" "sd_ID (h' d) = sd_ID (h d)" for d
      by (simp_all add: E(1))
    have "insts r' = insts r" by (simp add: insts_def E(3) fun_eq_iff)
    then have "lists_ok h' r'" using L by (simp add: lists_ok_def h' E(2,3))
    moreover have "pins_ok h' r'"
      using P unfolding pins_ok_def E(2,5) h' by (auto simp: E(1) split: if_splits)
    ultimately show ?thesis using E(6) by (simp add: st eq gsi_ok_pair)
  qed
qed

end
