(* ===== verification/Gateway.thy ===== *)
theory Gateway
  imports Wire IndexerInv
begin

text \<open>
  The gateway, \<open>gateway.go\<close>: its socket table, its handlers for transport messages, its Velaros
  handler with the fail-over loop, and the bodies of its announce and prune loops. (The
  \<open>Connect\<close> call that wires these together is modelled with the service's \<open>Listen\<close> in the
  theory of the run loops.)

  A socket is a Velaros object; the model has its pointer. What the gateway does to sockets and to
  the transport is recorded in the order it happens, as a list of effects. The results that Velaros
  and the transport return (whether a send failed, the error of the k-th \<open>MessageService\<close> call) are
  arguments.
\<close>

section \<open>State and effects\<close>

type_synonym socket = nat

record Gateway =
  gw_Name :: string
  gw_ID :: string
  gw_AnnounceInterval :: int
  gw_SendTimeout :: int
  gw_gsi :: "GatewayServiceIndexer option"
  gw_sockets :: "(string, socket) gomap"

datatype 'v gw_effect =
    CtxNext
  | SocketSend socket int int "byte list"
  | SocketClose socket Status string
  | MessageService string string string ConnectionInfo "'v SocketMessage"
  | ClosedSocket string Status string
  | AnnounceGateway GatewayDescriptor

record ('p, 'v) gworld =
  w_heap :: "'p heap"
  w_gw :: Gateway
  w_out :: "'v gw_effect list"

text \<open>
  \<open>iid\<close> is the result of \<open>generateID\<close>; \<open>interval\<close> and \<open>timeout\<close> are the package variables
  \<open>GatewayAnnounceInterval\<close> and \<open>GatewaySendTimeout\<close>, in nanoseconds. A \<open>SocketSend\<close> effect carries
  the timeout of the send.
\<close>

definition NewGateway :: "string \<Rightarrow> string \<Rightarrow> int \<Rightarrow> int \<Rightarrow> Gateway" where
  "NewGateway name iid interval timeout =
     \<lparr>gw_Name = name, gw_ID = iid, gw_AnnounceInterval = interval, gw_SendTimeout = timeout,
      gw_gsi = None, gw_sockets = []\<rparr>"

definition emit :: "'v gw_effect \<Rightarrow> ('p, 'v) gworld \<Rightarrow> ('p, 'v) gworld" where
  "emit e w = w\<lparr>w_out := w_out w @ [e]\<rparr>"

definition set_sockets :: "(string, socket) gomap \<Rightarrow> ('p, 'v) gworld \<Rightarrow> ('p, 'v) gworld" where
  "set_sockets m w = w\<lparr>w_gw := (w_gw w)\<lparr>gw_sockets := m\<rparr>\<rparr>"

text \<open>The index behind the pointer \<open>g.gsi\<close>, and an update of it; nothing when it is nil.\<close>

definition with_gsi :: "('p istate \<Rightarrow> 'p istate) \<Rightarrow> ('p, 'v) gworld \<Rightarrow> ('p, 'v) gworld" where
  "with_gsi f w = (case gw_gsi (w_gw w) of
       None \<Rightarrow> w
     | Some r \<Rightarrow> (case f (w_heap w, r) of
          (h', r') \<Rightarrow> w\<lparr>w_heap := h', w_gw := (w_gw w)\<lparr>gw_gsi := Some r'\<rparr>\<rparr>))"

section \<open>Closing sockets\<close>

definition closeSocket :: "string range_order \<Rightarrow> string \<Rightarrow> Status \<Rightarrow> string
    \<Rightarrow> ('p, 'v) gworld \<Rightarrow> ('p, 'v) gworld" where
  "closeSocket rg socketID status reason w =
     (case map_of (gw_sockets (w_gw w)) socketID of
        None \<Rightarrow> w
      | Some sock \<Rightarrow>
          with_gsi (UnmapSocket rg socketID)
            (emit (ClosedSocket socketID status reason)
              (emit (SocketClose sock status reason)
                (set_sockets (AList.delete socketID (gw_sockets (w_gw w))) w))))"

definition handleSocketClosure :: "string range_order \<Rightarrow> string \<Rightarrow> Status \<Rightarrow> string
    \<Rightarrow> ('p, 'v) gworld \<Rightarrow> ('p, 'v) gworld" where
  "handleSocketClosure rg socketID status reason w =
     (case map_of (gw_sockets (w_gw w)) socketID of
        None \<Rightarrow> w
      | Some sock \<Rightarrow>
          with_gsi (UnmapSocket rg socketID)
            (emit (SocketClose sock status reason)
              (set_sockets (AList.delete socketID (gw_sockets (w_gw w))) w)))"

text \<open>The body of the loop of \<open>closeAllSockets\<close>; \<open>socks\<close> is the map taken from the gateway.\<close>

definition close_one :: "(string, socket) gomap \<Rightarrow> string range_order \<Rightarrow> Status \<Rightarrow> string
    \<Rightarrow> nat \<times> string \<Rightarrow> ('p, 'v) gworld \<Rightarrow> ('p, 'v) gworld" where
  "close_one socks rg status reason k w =
     (case map_of socks (snd k) of
        None \<Rightarrow> w
      | Some sock \<Rightarrow>
          with_gsi (UnmapSocket (rg_from (fst k) rg) (snd k)) (emit (SocketClose sock status reason) w))"

definition closeAllSockets :: "string range_order \<Rightarrow> Status \<Rightarrow> string
    \<Rightarrow> ('p, 'v) gworld \<Rightarrow> ('p, 'v) gworld" where
  "closeAllSockets rg status reason w =
     (let socks = gw_sockets (w_gw w)
      in fold (close_one socks rg status reason)
           (enumerate 1 (rg 0 (gomap_keys socks))) (set_sockets [] w))"

definition HandleClose :: "string range_order \<Rightarrow> string \<Rightarrow> ('p, 'v) gworld \<Rightarrow> ('p, 'v) gworld" where
  "HandleClose rg socketID w = closeSocket rg socketID StatusGoingAway ''Client disconnected'' w"

section \<open>Messages from the transport\<close>

definition handleServiceAnnouncement :: "int \<Rightarrow> addr \<Rightarrow> ('p, 'v) gworld \<Rightarrow> ('p, 'v) gworld" where
  "handleServiceAnnouncement now d w =
     (let names = sd_GatewayNames (w_heap w d);
          announcingToThisGateway = (length names = 0 \<or> gw_Name (w_gw w) \<in> set names)
      in if \<not> announcingToThisGateway then w else with_gsi (SetServiceDescriptor now d) w)"

text \<open>\<open>sendFails\<close>: whether Velaros' \<open>SendWithContext\<close> returned an error.\<close>

definition handleGatewayMessage :: "bool \<Rightarrow> string range_order \<Rightarrow> string \<Rightarrow> 'v SocketMessage
    \<Rightarrow> ('p, 'v) gworld \<Rightarrow> ('p, 'v) gworld" where
  "handleGatewayMessage sendFails rg socketID msg w =
     (case map_of (gw_sockets (w_gw w)) socketID of
        None \<Rightarrow> w
      | Some sock \<Rightarrow>
          (let w' = emit (SocketSend sock (gw_SendTimeout (w_gw w)) (sm_Type msg) (sm_Data msg)) w
           in if sendFails then closeSocket rg socketID StatusInternalError ''Failed to send message'' w'
              else w'))"

definition handleSocketHeartbeats :: "string list \<Rightarrow> ('p, 'v) gworld \<Rightarrow> string list" where
  "handleSocketHeartbeats socketIDs w =
     filter (\<lambda>socketID. \<not> go_has (gw_sockets (w_gw w)) socketID) socketIDs"

section \<open>The Velaros handler\<close>

record 'v Context =
  ctx_Path :: string
  ctx_Socket :: socket
  ctx_SocketID :: string
  ctx_Headers :: "(string, string list) gomap"
  ctx_RemoteAddr :: string
  ctx_MessageType :: int
  ctx_RawData :: "byte list"
  ctx_Data :: "byte list"
  ctx_Meta :: "(string, 'v) gomap"

definition CanServePath :: "('p \<Rightarrow> string \<Rightarrow> bool) \<Rightarrow> string range_order \<Rightarrow> string
    \<Rightarrow> ('p, 'v) gworld \<Rightarrow> bool" where
  "CanServePath mtch rg path w =
     (case gw_gsi (w_gw w) of
        None \<Rightarrow> False
      | Some r \<Rightarrow> snd (ResolveService mtch rg path (w_heap w, r)))"

definition CanHandle :: "('p \<Rightarrow> string \<Rightarrow> bool) \<Rightarrow> string range_order \<Rightarrow> 'v Context
    \<Rightarrow> ('p, 'v) gworld \<Rightarrow> bool" where
  "CanHandle mtch rg ctx w = CanServePath mtch rg (ctx_Path ctx) w"

definition gw_MapSocket :: "string \<Rightarrow> string \<Rightarrow> ('p, 'v) gworld
    \<Rightarrow> (string \<times> bool \<times> go_error option) \<times> ('p, 'v) gworld" where
  "gw_MapSocket serviceName socketID w = (case gw_gsi (w_gw w) of
       None \<Rightarrow> (('''', False, None), w)
     | Some r \<Rightarrow> (case MapSocket serviceName socketID (w_heap w, r) of
          (res, h', r') \<Rightarrow> (res, w\<lparr>w_heap := h', w_gw := (w_gw w)\<lparr>gw_gsi := Some r'\<rparr>\<rparr>)))"

definition message_effect :: "string \<Rightarrow> 'v Context \<Rightarrow> ('p, 'v) gworld \<Rightarrow> 'v gw_effect" where
  "message_effect serviceID ctx w =
     MessageService serviceID (gw_ID (w_gw w)) (ctx_SocketID ctx)
       \<lparr>ci_Headers = ctx_Headers ctx, ci_RemoteAddr = ctx_RemoteAddr ctx\<rparr>
       \<lparr>sm_Type = ctx_MessageType ctx, sm_RawData = ctx_RawData ctx, sm_Data = ctx_Data ctx,
        sm_Meta = ctx_Meta ctx\<rparr>"

text \<open>
  The fail-over loop; \<open>send k serviceID\<close> is the error of the k-th \<open>MessageService\<close> call, \<open>None\<close> for
  success. Not returning would be the result \<open>None\<close>.
\<close>

partial_function (option) handle_loop :: "(nat \<Rightarrow> string \<Rightarrow> go_error option) \<Rightarrow> string range_order
    \<Rightarrow> 'v Context \<Rightarrow> string \<Rightarrow> nat \<Rightarrow> ('p, 'v) gworld \<Rightarrow> ('p, 'v) gworld option" where
  "handle_loop send rg ctx serviceName k w =
     (case gw_MapSocket serviceName (ctx_SocketID ctx) w of
        ((serviceID, isNewConnection, err), w1) \<Rightarrow>
          if err \<noteq> None \<or> serviceID = '''' then
            Some (closeSocket (rg_from (3 * k + 2) rg) (ctx_SocketID ctx) StatusGoingAway
              ''Service unreachable'' w1)
          else
            let w2 = emit (message_effect serviceID ctx w1) w1
            in case send k serviceID of
                 None \<Rightarrow> Some w2
               | Some e \<Rightarrow>
                   if errors_Is e ErrSlowConsumer then
                     Some (closeSocket (rg_from (3 * k + 2) rg) (ctx_SocketID ctx)
                       StatusPolicyViolation ''Slow consumer'' w2)
                   else
                     let w3 = with_gsi (UnsetService (rg_from (3 * k) rg) serviceID) w2
                     in if \<not> isNewConnection then
                          Some (closeSocket (rg_from (3 * k + 2) rg) (ctx_SocketID ctx)
                            StatusGoingAway ''Service unreachable'' w3)
                        else handle_loop send rg ctx serviceName (Suc k) w3)"

declare handle_loop.simps [code]

definition register_socket :: "'v Context \<Rightarrow> ('p, 'v) gworld \<Rightarrow> ('p, 'v) gworld" where
  "register_socket ctx w =
     set_sockets (AList.update (ctx_SocketID ctx) (ctx_Socket ctx) (gw_sockets (w_gw w))) w"

definition Handle :: "('p \<Rightarrow> string \<Rightarrow> bool) \<Rightarrow> (nat \<Rightarrow> string \<Rightarrow> go_error option)
    \<Rightarrow> string range_order \<Rightarrow> 'v Context \<Rightarrow> ('p, 'v) gworld \<Rightarrow> ('p, 'v) gworld option" where
  "Handle mtch send rg ctx w =
     (case gw_gsi (w_gw w) of
        None \<Rightarrow> Some (emit CtxNext w)
      | Some r \<Rightarrow>
          (case ResolveService mtch rg (ctx_Path ctx) (w_heap w, r) of
             (serviceName, ok) \<Rightarrow>
               if \<not> ok then Some (emit CtxNext w)
               else handle_loop send (rg_from 1 rg) ctx serviceName 0 (register_socket ctx w)))"

section \<open>The loops\<close>

text \<open>One tick of \<open>announceLoop\<close> at time \<open>now\<close>; an error of the announcement is only traced.\<close>

definition announce_tick :: "int \<Rightarrow> ('p, 'v) gworld \<Rightarrow> ('p, 'v) gworld" where
  "announce_tick now w =
     (case gw_gsi (w_gw w) of
        None \<Rightarrow> w
      | Some r \<Rightarrow>
          emit (AnnounceGateway
            \<lparr>gd_Name = gw_Name (w_gw w),
             gd_ServiceDescriptors =
               FreshServiceDescriptors now (3 * gw_AnnounceInterval (w_gw w)) (w_heap w, r)\<rparr>) w)"

text \<open>One tick of \<open>pruneLoop\<close>. The range statements of the prune come first, then those of each close.\<close>

definition prune_tick :: "int \<Rightarrow> string range_order \<Rightarrow> (nat \<Rightarrow> string range_order)
    \<Rightarrow> ('p, 'v) gworld \<Rightarrow> ('p, 'v) gworld" where
  "prune_tick now rg rgs w =
     (case gw_gsi (w_gw w) of
        None \<Rightarrow> w
      | Some r \<Rightarrow>
          (case PruneStaleServices rg now (5 * gw_AnnounceInterval (w_gw w)) (w_heap w, r) of
             (_, affectedSocketIDs, h', r') \<Rightarrow>
               fold (\<lambda>(k, socketID). closeSocket (rgs k) socketID StatusGoingAway ''Service unreachable'')
                 (enumerate 0 affectedSocketIDs)
                 (w\<lparr>w_heap := h', w_gw := (w_gw w)\<lparr>gw_gsi := Some r'\<rparr>\<rparr>)))"

end
