(* ===== verification/Machines.thy ===== *)
theory Machines
  imports Main
begin

text \<open>
  The contracts shared by the stateful components: a step relation with an invariant, and a step
  relation that simulates a more abstract one. Each component interprets them on its own steps.
\<close>

section \<open>Invariants of a step relation\<close>

locale invariant_machine =
  fixes init :: "'s \<Rightarrow> bool"
    and step :: "'s \<Rightarrow> 's \<Rightarrow> bool"
    and inv :: "'s \<Rightarrow> bool"
  assumes init_inv: "init s \<Longrightarrow> inv s"
    and step_inv: "inv s \<Longrightarrow> step s t \<Longrightarrow> inv t"
begin

lemma steps_inv: "step\<^sup>*\<^sup>* s t \<Longrightarrow> inv s \<Longrightarrow> inv t"
  by (induction rule: rtranclp_induct) (auto intro: step_inv)

lemma reachable_inv: "init s \<Longrightarrow> step\<^sup>*\<^sup>* s t \<Longrightarrow> inv t"
  using steps_inv init_inv by blast

text \<open>A quantity that no step changes is the same at both ends of a run.\<close>

lemma steps_frame:
  assumes "\<And>s t. inv s \<Longrightarrow> step s t \<Longrightarrow> f t = f s" and "step\<^sup>*\<^sup>* s t" and "inv s"
  shows "f t = f s"
  using assms(2,3)
proof (induction rule: rtranclp_induct)
  case base
  then show ?case by simp
next
  case (step t u)
  then show ?case using assms(1) steps_inv by metis
qed

text \<open>A property that every step keeps, given the invariant, holds at the end of a run.\<close>

lemma steps_keep:
  assumes "\<And>s t. inv s \<Longrightarrow> step s t \<Longrightarrow> P s \<Longrightarrow> P t" and "step\<^sup>*\<^sup>* s t" and "inv s" and "P s"
  shows "P t"
  using assms(2-4)
proof (induction rule: rtranclp_induct)
  case base
  then show ?case by simp
next
  case (step t u)
  then show ?case using assms(1) steps_inv by metis
qed

end

section \<open>Simulation of an abstract specification\<close>

locale refinement_machine = invariant_machine init step inv
  for init :: "'s \<Rightarrow> bool" and step :: "'s \<Rightarrow> 's \<Rightarrow> bool" and inv :: "'s \<Rightarrow> bool" +
  fixes abs_step :: "'a \<Rightarrow> 'a \<Rightarrow> bool"
    and abs :: "'s \<Rightarrow> 'a"
  assumes simulates: "inv s \<Longrightarrow> step s t \<Longrightarrow> abs_step (abs s) (abs t) \<or> abs t = abs s"
begin

lemma steps_simulate:
  assumes "step\<^sup>*\<^sup>* s t" and "inv s"
  shows "abs_step\<^sup>*\<^sup>* (abs s) (abs t)"
  using assms
proof (induction rule: rtranclp_induct)
  case base
  then show ?case by simp
next
  case (step t u)
  then have "inv t" using steps_inv by blast
  then show ?case using step simulates [of t u] by (auto intro: rtranclp.rtrancl_into_rtrancl)
qed

text \<open>An invariant of the specification is one of the implementation.\<close>

lemma abs_invariant:
  assumes "\<And>a b. P a \<Longrightarrow> abs_step a b \<Longrightarrow> P b" and "step\<^sup>*\<^sup>* s t" and "inv s" and "P (abs s)"
  shows "P (abs t)"
  using steps_simulate [OF assms(2,3)] assms(4)
  by (induction rule: rtranclp_induct) (auto intro: assms(1))

end

end
