(* ===== verification/Registry.thy ===== *)
theory Registry
  imports IndexerInv Machines
begin

text \<open>
  What the service index promises, and the proof that it keeps the promise. The abstract registry
  has no lists and no pointers: a map from identifiers to live instances and a map from (socket,
  service name) to the identifier of the instance the socket is pinned to.
\<close>

section \<open>The abstract registry\<close>

record 'p registry =
  live :: "string \<Rightarrow> (string \<times> 'p RouteDescriptor list \<times> int option) option"
  pins :: "string \<Rightarrow> string \<Rightarrow> string option"

definition instance_named :: "'p registry \<Rightarrow> string \<Rightarrow> string \<Rightarrow> bool" where
  "instance_named R n i \<longleftrightarrow> (\<exists>routes seen. live R i = Some (n, routes, seen))"

definition load :: "'p registry \<Rightarrow> string \<Rightarrow> string \<Rightarrow> nat" where
  "load R n i = card {s. pins R s n = Some i}"

definition drop_instances :: "string set \<Rightarrow> 'p registry \<Rightarrow> 'p registry" where
  "drop_instances gone R =
     \<lparr>live = (\<lambda>i. if i \<in> gone then None else live R i),
      pins = (\<lambda>s n. case pins R s n of None \<Rightarrow> None | Some i \<Rightarrow> if i \<in> gone then None else Some i)\<rparr>"

definition stale_in :: "int \<Rightarrow> int \<Rightarrow> 'p registry \<Rightarrow> string set" where
  "stale_in now threshold R = {i. \<exists>n routes seen. live R i = Some (n, routes, seen)
     \<and> (case seen of None \<Rightarrow> True | Some t \<Rightarrow> now - t > threshold)}"

section \<open>Operations\<close>

text \<open>
  The state-changing methods of the index as values. An announcement carries the descriptor and the
  address at which the transport allocated it.
\<close>

datatype 'p gsi_op =
    Announce int addr "'p ServiceDescriptor"
  | Unset string
  | Prune int int
  | MapTo string string
  | Unmap string
  | CloseIndex

fun gsi_step :: "string range_order \<Rightarrow> 'p gsi_op \<Rightarrow> 'p istate \<Rightarrow> 'p istate" where
  "gsi_step rg (Announce now d sd) (h, r) = SetServiceDescriptor now d (h(d := sd), r)"
| "gsi_step rg (Unset i) st = UnsetService rg i st"
| "gsi_step rg (Prune now threshold) st = snd (snd (PruneStaleServices rg now threshold st))"
| "gsi_step rg (MapTo n s) st = snd (MapSocket n s st)"
| "gsi_step rg (Unmap s) st = UnmapSocket rg s st"
| "gsi_step rg CloseIndex (h, r) = (h, gsi_Close r)"

fun admissible :: "'p gsi_op \<Rightarrow> 'p istate \<Rightarrow> bool" where
  "admissible (Announce now d sd) (h, r) \<longleftrightarrow> announce_ok (h(d := sd), r) d"
| "admissible _ _ \<longleftrightarrow> True"

inductive gsi_next :: "'p istate \<Rightarrow> 'p istate \<Rightarrow> bool" where
  gsi_next: "range_ok rg \<Longrightarrow> admissible op st \<Longrightarrow> gsi_next st (gsi_step rg op st)"

inductive registry_step :: "'p gsi_op \<Rightarrow> 'p registry \<Rightarrow> 'p registry \<Rightarrow> bool" where
  reg_announce: "registry_step (Announce now d sd) R
     (R\<lparr>live := (live R)(sd_ID sd \<mapsto> (sd_Name sd, sd_RouteDescriptors sd, Some now))\<rparr>)"
| reg_unset: "registry_step (Unset i) R (drop_instances {i} R)"
| reg_prune: "registry_step (Prune now threshold) R (drop_instances (stale_in now threshold R) R)"
| reg_pinned: "pins R s n = Some i \<Longrightarrow> registry_step (MapTo n s) R R"
| reg_no_instance: "pins R s n = None \<Longrightarrow> \<forall>i. \<not> instance_named R n i \<Longrightarrow> registry_step (MapTo n s) R R"
| reg_pin: "pins R s n = None \<Longrightarrow> instance_named R n i
     \<Longrightarrow> \<forall>j. instance_named R n j \<longrightarrow> load R n i \<le> load R n j
     \<Longrightarrow> registry_step (MapTo n s) R (R\<lparr>pins := (pins R)(s := (pins R s)(n \<mapsto> i))\<rparr>)"
| reg_unmap: "registry_step (Unmap s) R (R\<lparr>pins := (pins R)(s := Map.empty)\<rparr>)"
| reg_close: "registry_step CloseIndex R \<lparr>live = Map.empty, pins = (\<lambda>_. Map.empty)\<rparr>"

definition registry_of :: "'p istate \<Rightarrow> 'p registry" where
  "registry_of st =
     \<lparr>live = (\<lambda>i. map_option
        (\<lambda>d. (sd_Name (fst st d), sd_RouteDescriptors (fst st d), sd_LastSeenAt (fst st d)))
        (find (\<lambda>d. sd_ID (fst st d) = i) (descriptors (snd st)))),
      pins = pinned (snd st)\<rparr>"

lemma registry_of_simps [simp]:
  "pins (registry_of st) = pinned (snd st)"
  "live (registry_of (h, r)) i = map_option
      (\<lambda>d. (sd_Name (h d), sd_RouteDescriptors (h d), sd_LastSeenAt (h d)))
      (find (\<lambda>d. sd_ID (h d) = i) (descriptors r))"
  by (simp_all add: registry_of_def)

lemma find_unique:
  assumes "inj_on f (set xs)"
  shows "find (\<lambda>x. f x = i) xs = Some x \<longleftrightarrow> x \<in> set xs \<and> f x = i"
proof
  assume "find (\<lambda>x. f x = i) xs = Some x"
  then show "x \<in> set xs \<and> f x = i" by (rule find_Some_mem)
next
  assume x: "x \<in> set xs \<and> f x = i"
  then obtain y where y: "find (\<lambda>x. f x = i) xs = Some y"
    using find_None_iff' [of "\<lambda>x. f x = i" xs] by auto
  with x assms show "find (\<lambda>x. f x = i) xs = Some x" by (auto dest!: find_Some_mem dest: inj_onD)
qed

lemma find_ID:
  "lists_ok h r \<Longrightarrow> find (\<lambda>d. sd_ID (h d) = i) (descriptors r) = Some d \<longleftrightarrow> d \<in> set (descriptors r) \<and> sd_ID (h d) = i"
  by (rule find_unique) (simp add: lists_ok_def)

lemma live_registry:
  assumes "lists_ok h r"
  shows "live (registry_of (h, r)) i = Some x \<longleftrightarrow>
    (\<exists>d\<in>set (descriptors r). sd_ID (h d) = i \<and> x = (sd_Name (h d), sd_RouteDescriptors (h d), sd_LastSeenAt (h d)))"
  using find_ID [OF assms, of i] by auto

lemma instance_named_registry:
  assumes "lists_ok h r"
  shows "instance_named (registry_of (h, r)) n i \<longleftrightarrow> (\<exists>d\<in>set (insts r n). sd_ID (h d) = i)"
  using assms by (fastforce simp: instance_named_def live_registry lists_ok_insts simp del: registry_of_simps)

lemma load_registry:
  assumes "gsi_ok (h, r)" "d \<in> set (insts r n)"
  shows "load (registry_of (h, r)) n (sd_ID (h d)) = length (sd_socketIDs (h d))"
proof -
  have "d \<in> set (descriptors r)" "sd_Name (h d) = n"
    using assms by (auto simp: gsi_ok_pair lists_ok_insts)
  then have "distinct (sd_socketIDs (h d))" "set (sd_socketIDs (h d)) = {s. pinned r s n = Some (sd_ID (h d))}"
    using assms(1) by (auto simp: gsi_ok_pair pins_ok_def)
  then show ?thesis by (simp add: load_def distinct_card flip: distinct_card)
qed

section \<open>Each method implements its abstract operation\<close>

lemma registry_eqI:
  fixes R R' :: "'p registry"
  assumes "\<And>i x. live R i = Some x \<longleftrightarrow> live R' i = Some x" "\<And>s n. pins R s n = pins R' s n"
  shows "R = R'"
proof -
  have "live R = live R'"
  proof
    show "live R i = live R' i" for i
      using assms(1) [of i] by (cases "live R i") (metis not_None_eq, metis)
  qed
  moreover have "pins R = pins R'" using assms(2) by (intro ext)
  ultimately show ?thesis by simp
qed

lemma live_cong:
  assumes "\<And>d. sd_Name (h' d) = sd_Name (h d)" "\<And>d. sd_ID (h' d) = sd_ID (h d)"
    "\<And>d. sd_RouteDescriptors (h' d) = sd_RouteDescriptors (h d)"
    "\<And>d. sd_LastSeenAt (h' d) = sd_LastSeenAt (h d)" "descriptors r' = descriptors r"
  shows "live (registry_of (h', r')) i = live (registry_of (h, r)) i"
  unfolding registry_of_simps assms by (rule refl)

lemma registry_announce:
  assumes "gsi_ok (h, r)" "\<not> closed r" "announce_ok (h(d := sd), r) d"
  shows "registry_of (SetServiceDescriptor now d (h(d := sd), r)) =
    (registry_of (h, r))\<lparr>live := (live (registry_of (h, r)))
        (sd_ID sd \<mapsto> (sd_Name sd, sd_RouteDescriptors sd, Some now))\<rparr>" (is "_ = ?R")
proof (rule registry_eqI)
  let ?h = "h(d := sd)"
  have fresh: "d \<notin> set (descriptors r)" using assms(3) by (simp add: announce_ok_def)
  have ok: "gsi_ok (?h, r)" using assms(1) fresh by (simp add: gsi_ok_alloc)
  have ok': "gsi_ok (SetServiceDescriptor now d (?h, r))"
    using ok assms(3) by (rule SetServiceDescriptor_ok)
  have L: "lists_ok h r" "lists_ok ?h r" using assms(1) ok by (auto simp: gsi_ok_pair)
  have same: "?h e = h e" if "e \<in> set (descriptors r)" for e using fresh that by auto
  consider e where "e \<in> set (descriptors r)" "sd_ID (?h e) = sd_ID (?h d)"
    | "\<And>e. e \<in> set (descriptors r) \<Longrightarrow> sd_ID (?h e) \<noteq> sd_ID (?h d)" by blast
  note cases = this
  fix i x
  show "live (registry_of (SetServiceDescriptor now d (?h, r))) i = Some x \<longleftrightarrow> live ?R i = Some x"
  proof (cases rule: cases)
    case (1 e)
    let ?h' = "?h(e := (?h e)\<lparr>sd_RouteDescriptors := sd_RouteDescriptors (?h d), sd_LastSeenAt := Some now\<rparr>)"
    have eq: "SetServiceDescriptor now d (?h, r) = (?h', r)"
      by (rule Set_existing [OF ok assms(3,2) 1])
    have L': "lists_ok ?h' r" using ok' by (simp add: eq gsi_ok_pair)
    have name: "sd_Name (h e) = sd_Name sd" "sd_ID (h e) = sd_ID sd"
      using assms(3) 1 same [OF 1(1)] fresh by (auto simp: announce_ok_def)
    have ids: "find (\<lambda>f. sd_ID (?h' f) = i) (descriptors r) = find (\<lambda>f. sd_ID (h f) = i) (descriptors r)"
      using fresh name(2) 1(2) by (intro find_cong refl) auto
    show ?thesis
    proof (cases "i = sd_ID sd")
      case True
      then have "find (\<lambda>f. sd_ID (h f) = i) (descriptors r) = Some e"
        using 1(1) name(2) by (simp add: find_ID [OF L(1)])
      with True name 1 fresh show ?thesis unfolding eq registry_of_simps ids by auto
    next
      case False
      have "?h' f = h f" if "find (\<lambda>f. sd_ID (h f) = i) (descriptors r) = Some f" for f
        using find_Some_mem [OF that] False fresh name(2) by auto
      with False show ?thesis unfolding eq registry_of_simps ids
        by (cases "find (\<lambda>f. sd_ID (h f) = i) (descriptors r)") auto
    qed
  next
    case 2
    let ?h' = "?h(d := (?h d)\<lparr>sd_LastSeenAt := Some now\<rparr>)"
    define r' where "r' = r\<lparr>servicesByName := AList.update (sd_Name (?h d))
        (insts r (sd_Name (?h d)) @ [d]) (servicesByName r), descriptors := descriptors r @ [d]\<rparr>"
    have eq: "SetServiceDescriptor now d (?h, r) = (?h', r')" and ds: "descriptors r' = descriptors r @ [d]"
      unfolding r'_def by (rule Set_new [OF ok assms(2) 2]) simp_all
    have L': "lists_ok ?h' r'" using ok' by (simp add: eq gsi_ok_pair)
    have new: "sd_ID (h e) \<noteq> sd_ID sd" if "e \<in> set (descriptors r)" for e
      using 2 [OF that] same [OF that] by simp
    have ids: "find (\<lambda>f. sd_ID (?h' f) = i) (descriptors r) = find (\<lambda>f. sd_ID (h f) = i) (descriptors r)"
      using fresh by (intro find_cong refl) auto
    have same': "?h' f = h f" if "find (\<lambda>f. sd_ID (h f) = i) (descriptors r) = Some f" for f
      using find_Some_mem [OF that] fresh by auto
    have none: "find (\<lambda>f. sd_ID (h f) = sd_ID sd) (descriptors r) = None"
      using new by (simp add: find_None_iff')
    show ?thesis
      unfolding eq registry_of_simps ds find_append ids using same' none
      by (cases "find (\<lambda>f. sd_ID (h f) = i) (descriptors r)") auto
  qed
next
  fix s n
  let ?h = "h(d := sd)"
  have "socketToInstance (snd (SetServiceDescriptor now d (?h, r))) = socketToInstance r"
    using assms(2) by (auto simp: SetServiceDescriptor_def Let_def split: option.split)
  then show "pins (registry_of (SetServiceDescriptor now d (?h, r))) s n = pins ?R s n"
    by (simp add: pinned_def)
qed

text \<open>Removals: one instance or a set of them.\<close>

lemma registry_drop:
  assumes "gsi_ok (h, r)" "gsi_ok (h, r')"
    and "descriptors r' = filter (\<lambda>d. sd_ID (h d) \<notin> gone) (descriptors r)"
    and "\<And>s n. pinned r' s n = (case pinned r s n of None \<Rightarrow> None | Some i \<Rightarrow> if i \<in> gone then None else Some i)"
  shows "registry_of (h, r') = drop_instances gone (registry_of (h, r))"
proof (rule registry_eqI)
  have L: "lists_ok h r" "lists_ok h r'" using assms(1,2) by (auto simp: gsi_ok_pair)
  fix i x
  show "live (registry_of (h, r')) i = Some x \<longleftrightarrow> live (drop_instances gone (registry_of (h, r))) i = Some x"
    by (auto simp: live_registry [OF L(1)] live_registry [OF L(2)] drop_instances_def assms(3)
        simp del: registry_of_simps)
next
  fix s n
  show "pins (registry_of (h, r')) s n = pins (drop_instances gone (registry_of (h, r))) s n"
    by (simp add: drop_instances_def assms(4))
qed

lemma registry_unset:
  assumes "gsi_ok st" "\<not> closed (snd st)" "range_ok rg"
  shows "registry_of (UnsetService rg i st) = drop_instances {i} (registry_of st)"
proof -
  obtain h r where st: "st = (h, r)" by (cases st)
  obtain h' r' where eq: "unsetServiceLocked rg i (h, r) = (h', r')" by fastforce
  have "unset_effect i (h, r) (h', r')" using unset_effect [OF assms, of i] by (simp add: st eq)
  moreover have "gsi_ok (h', r')" using unsetServiceLocked_ok [OF assms(1,3)] by (simp add: st flip: eq)
  ultimately show ?thesis
    using assms(1) by (auto simp: st UnsetService_def eq unset_effect_def Let_def intro!: registry_drop
        split: option.split)
qed

lemma registry_prune:
  assumes "gsi_ok st" "\<not> closed (snd st)" "range_ok rg"
  shows "registry_of (snd (snd (PruneStaleServices rg now threshold st))) =
    drop_instances (stale_in now threshold (registry_of st)) (registry_of st)"
proof -
  obtain h r where st: "st = (h, r)" by (cases st)
  obtain ids aff h' r' where eq: "PruneStaleServices rg now threshold st = (ids, aff, (h', r'))"
    by (metis prod_cases4)
  note E = PruneStaleServices_eq [OF assms eq]
  have L: "lists_ok h r" using assms(1) by (simp add: st gsi_ok_pair)
  have stale: "\<not> is_fresh now threshold d \<longleftrightarrow>
      (case sd_LastSeenAt d of None \<Rightarrow> True | Some t \<Rightarrow> now - t > threshold)" for d :: "'p ServiceDescriptor"
    by (auto simp: is_fresh_def split: option.split)
  have "i \<in> set ids \<longleftrightarrow> i \<in> stale_in now threshold (registry_of st)" for i
  proof -
    have "i \<in> set ids \<longleftrightarrow> (\<exists>d\<in>set (descriptors r). sd_ID (h d) = i \<and> \<not> is_fresh now threshold (h d))"
      by (auto simp: E(1) st stale_ids_def)
    also have "\<dots> \<longleftrightarrow> i \<in> stale_in now threshold (registry_of st)"
      unfolding stale_in_def mem_Collect_eq st live_registry [OF L] stale by blast
    finally show ?thesis .
  qed
  then have "set ids = stale_in now threshold (registry_of st)" by blast
  with E(2,3) assms(1) have "registry_of (h', r') =
      drop_instances (stale_in now threshold (registry_of st)) (registry_of st)"
    by (auto simp: st unset_all_effect_def Let_def intro!: registry_drop)
  then show ?thesis by (simp add: eq)
qed

lemma registry_map:
  assumes "gsi_ok st" "\<not> closed (snd st)"
  shows "registry_step (MapTo n s) (registry_of st) (registry_of (snd (MapSocket n s st)))"
proof -
  obtain h r where st: "st = (h, r)" by (cases st)
  have op: "\<not> closed r" and L: "lists_ok h r" and ok: "gsi_ok (h, r)"
    using assms by (auto simp: st gsi_ok_pair)
  consider i where "pinned r s n = Some i" | "pinned r s n = None" "insts r n = []"
    | "pinned r s n = None" "insts r n \<noteq> []" by fastforce
  then show ?thesis
  proof cases
    case 1
    then show ?thesis using op by (simp add: st MapSocket_pinned reg_pinned)
  next
    case 2
    then show ?thesis
      using op L by (auto simp: st MapSocket_no_instance instance_named_registry intro!: reg_no_instance)
  next
    case 3
    with op obtain t where t: "MapSocket n s (h, r) = ((sd_ID (h t), True, None), new_pin n s t (h, r))"
      "t \<in> set (insts r n)"
      "\<And>d. d \<in> set (insts r n) \<Longrightarrow> length (sd_socketIDs (h t)) \<le> length (sd_socketIDs (h d))"
      by (rule MapSocket_new [where h = h]) blast
    let ?R = "registry_of (h, r)" and ?st' = "new_pin n s t (h, r)"
    have "registry_of ?st' = ?R\<lparr>pins := (pins ?R)(s := (pins ?R s)(n \<mapsto> sd_ID (h t)))\<rparr>"
    proof (rule registry_eqI)
      fix i x
      have "live (registry_of ?st') i = live ?R i"
        unfolding new_pin_def prod.case by (rule live_cong) simp_all
      then show "live (registry_of ?st') i = Some x \<longleftrightarrow>
          live (?R\<lparr>pins := (pins ?R)(s := (pins ?R s)(n \<mapsto> sd_ID (h t)))\<rparr>) i = Some x" by simp
    qed (auto simp: pinned_new_pin)
    moreover have "registry_step (MapTo n s) ?R (?R\<lparr>pins := (pins ?R)(s := (pins ?R s)(n \<mapsto> sd_ID (h t)))\<rparr>)"
    proof (rule reg_pin)
      show "pins ?R s n = None" using 3(1) by simp
      show "instance_named ?R n (sd_ID (h t))"
        using t(2) L by (auto simp: instance_named_registry)
      show "\<forall>j. instance_named ?R n j \<longrightarrow> load ?R n (sd_ID (h t)) \<le> load ?R n j"
        using t(2,3) L by (auto simp: instance_named_registry load_registry [OF ok])
    qed
    ultimately show ?thesis using t(1) by (simp add: st)
  qed
qed

lemma registry_unmap:
  assumes "gsi_ok st" "\<not> closed (snd st)" "range_ok rg"
  shows "registry_of (UnmapSocket rg s st) =
    (registry_of st)\<lparr>pins := (pins (registry_of st))(s := Map.empty)\<rparr>"
proof -
  obtain h r where st: "st = (h, r)" by (cases st)
  obtain h' r' where eq: "UnmapSocket rg s (h, r) = (h', r')" by fastforce
  note E = UnmapSocket_effect [OF assms(1)[unfolded st] assms(2)[unfolded st snd_conv] assms(3) eq]
  have h': "sd_Name (h' d) = sd_Name (h d)" "sd_ID (h' d) = sd_ID (h d)"
    "sd_RouteDescriptors (h' d) = sd_RouteDescriptors (h d)" "sd_LastSeenAt (h' d) = sd_LastSeenAt (h d)" for d
    by (simp_all add: E(1))
  show ?thesis
    unfolding st eq
  proof (rule registry_eqI)
    fix i x
    show "live (registry_of (h', r')) i = Some x \<longleftrightarrow>
        live ((registry_of (h, r))\<lparr>pins := (pins (registry_of (h, r)))(s := Map.empty)\<rparr>) i = Some x"
      using live_cong [OF h' E(2)] by simp
  qed (simp add: E(5))
qed

section \<open>The refinement\<close>

lemma gsi_step_ok:
  assumes "gsi_ok st" "range_ok rg" "admissible op st"
  shows "gsi_ok (gsi_step rg op st)"
proof (cases op)
  case (Announce now d sd)
  obtain h r where st: "st = (h, r)" by (cases st)
  from assms(3) have a: "announce_ok (h(d := sd), r) d" by (simp add: Announce st)
  then have "gsi_ok (h(d := sd), r)"
    using assms(1) by (simp add: st gsi_ok_alloc announce_ok_def)
  then show ?thesis using a by (simp add: Announce st SetServiceDescriptor_ok)
next
  case (Prune now threshold)
  show ?thesis
  proof (cases "closed (snd st)")
    case True
    with assms(1) show ?thesis by (cases st) (simp add: Prune PruneStaleServices_def)
  next
    case False
    obtain ids aff st' where "PruneStaleServices rg now threshold st = (ids, aff, st')"
      by (metis prod_cases3)
    with PruneStaleServices_eq(2) [OF assms(1) False assms(2)] show ?thesis by (auto simp: Prune)
  qed
next
  case CloseIndex
  show ?thesis by (cases st) (simp add: CloseIndex gsi_Close_ok)
qed (use assms in \<open>simp_all add: UnsetService_def unsetServiceLocked_ok MapSocket_ok UnmapSocket_ok\<close>)

lemma gsi_step_refines:
  assumes "gsi_ok st" "\<not> closed (snd st)" "range_ok rg" "admissible op st"
  shows "registry_step op (registry_of st) (registry_of (gsi_step rg op st))"
proof (cases op)
  case (Announce now d sd)
  obtain h r where st: "st = (h, r)" by (cases st)
  show ?thesis
    using assms by (simp add: Announce st registry_announce reg_announce del: registry_of_simps)
next
  case CloseIndex
  obtain h r where st: "st = (h, r)" by (cases st)
  have "registry_of (h, gsi_Close r) = \<lparr>live = Map.empty, pins = (\<lambda>_. Map.empty)\<rparr>"
    by (rule registry_eqI) (auto simp: gsi_Close_def pinned_def)
  then show ?thesis by (simp add: CloseIndex st reg_close)
qed (use assms in \<open>simp_all add: registry_unset reg_unset registry_prune reg_prune registry_map
    registry_unmap reg_unmap del: registry_of_simps\<close>)

text \<open>A closed index never changes again: every method is a no-op on it.\<close>

lemma gsi_step_closed:
  assumes "gsi_ok st" "closed (snd st)"
  shows "snd (gsi_step rg op st) = snd st"
proof -
  obtain h r where st: "st = (h, r)" by (cases st)
  have "gsi_Close r = r" using assms by (simp add: st gsi_ok_pair maps_ok_def gsi_Close_def)
  then show ?thesis
    using assms(2)
    by (cases op) (simp_all add: st SetServiceDescriptor_def UnsetService_def unsetServiceLocked_def
        PruneStaleServices_def MapSocket_closed UnmapSocket_def)
qed

definition registry_next :: "'p registry \<Rightarrow> 'p registry \<Rightarrow> bool" where
  "registry_next R R' \<longleftrightarrow> (\<exists>op. registry_step op R R')"

interpretation gsi: refinement_machine "\<lambda>st. snd st = NewGatewayServiceIndexer" gsi_next gsi_ok
  registry_next registry_of
proof
  fix st st' :: "'a istate"
  show "gsi_ok st" if "snd st = NewGatewayServiceIndexer"
    using that NewGatewayServiceIndexer_ok [of "fst st"] by (metis prod.collapse)
  show "gsi_ok st'" if "gsi_ok st" "gsi_next st st'"
    using that(2,1) by cases (auto intro: gsi_step_ok)
  show "registry_next (registry_of st) (registry_of st') \<or> registry_of st' = registry_of st"
    if "gsi_ok st" "gsi_next st st'"
    using that(2)
  proof cases
    case (gsi_next rg op)
    show ?thesis
    proof (cases "closed (snd st)")
      case True
      then have "snd st' = snd st"
        using gsi_next gsi_step_closed [OF that(1) True] by simp
      moreover have "descriptors (snd st) = []"
        using that(1) True by (simp add: gsi_ok_def maps_ok_def)
      ultimately show ?thesis by (simp add: registry_of_def)
    next
      case False
      with that(1) gsi_next show ?thesis
        by (auto simp: registry_next_def simp del: registry_of_simps intro: gsi_step_refines)
    qed
  qed
qed

end
