(* ===== verification/GatewayInv.thy ===== *)
theory GatewayInv
  imports Gateway Registry
begin

text \<open>
  The gateway's invariant: its index is consistent, its socket table is a map, and every socket that
  the index has pinned is open at the gateway. Every handler keeps it.
\<close>

named_theorems gw_simps \<open>fields of the gateway's world after an operation\<close>

section \<open>The methods of the index, closed or not\<close>

lemma closed_no_pins: "gsi_ok (h, r) \<Longrightarrow> closed r \<Longrightarrow> pinned r s = Map.empty"
  by (simp add: gsi_ok_pair maps_ok_def pinned_def)

lemma pinned_UnmapSocket:
  assumes "gsi_ok (h, r)" "range_ok rg"
  shows "pinned (snd (UnmapSocket rg s (h, r))) s' = (if s' = s then Map.empty else pinned r s')"
proof (cases "closed r")
  case True
  with assms(1) show ?thesis by (simp add: UnmapSocket_def closed_no_pins)
next
  case False
  obtain h' r' where "UnmapSocket rg s (h, r) = (h', r')" by fastforce
  with UnmapSocket_effect(5) [OF assms(1) False assms(2) this] show ?thesis by simp
qed

lemma pinned_UnsetService:
  assumes "gsi_ok (h, r)" "range_ok rg"
  shows "pinned (snd (UnsetService rg i (h, r))) s n =
    (if pinned r s n = Some i then None else pinned r s n)"
proof (cases "closed r")
  case True
  with assms(1) show ?thesis by (simp add: UnsetService_def unsetServiceLocked_def closed_no_pins)
next
  case False
  with unset_effect [OF assms(1) _ assms(2), of i] show ?thesis
    by (simp add: UnsetService_def unset_effect_def Let_def)
qed

lemma descriptors_UnsetService:
  assumes "gsi_ok (h, r)" "range_ok rg"
  shows "descriptors (snd (UnsetService rg i (h, r))) = filter (\<lambda>d. sd_ID (h d) \<noteq> i) (descriptors r)
    \<and> fst (UnsetService rg i (h, r)) = h"
proof (cases "closed r")
  case True
  with assms(1) show ?thesis
    by (simp add: UnsetService_def unsetServiceLocked_def gsi_ok_pair maps_ok_def)
next
  case False
  with unset_effect [OF assms(1) _ assms(2), of i] show ?thesis
    by (simp add: UnsetService_def unset_effect_def Let_def)
qed

section \<open>The invariant\<close>

definition gw_ok :: "('p, 'v) gworld \<Rightarrow> bool" where
  "gw_ok w \<longleftrightarrow> gomap_ok (gw_sockets (w_gw w))
     \<and> (\<forall>r. gw_gsi (w_gw w) = Some r \<longrightarrow> gsi_ok (w_heap w, r)
          \<and> (\<forall>s n i. pinned r s n = Some i \<longrightarrow> go_has (gw_sockets (w_gw w)) s))"

lemma gw_simps_emit [simp, gw_simps]:
  "w_heap (emit e w) = w_heap w" "w_gw (emit e w) = w_gw w" "w_out (emit e w) = w_out w @ [e]"
  by (simp_all add: emit_def)

lemma gw_simps_set_sockets [simp, gw_simps]:
  "w_heap (set_sockets m w) = w_heap w" "w_out (set_sockets m w) = w_out w"
  "gw_gsi (w_gw (set_sockets m w)) = gw_gsi (w_gw w)" "gw_sockets (w_gw (set_sockets m w)) = m"
  "gw_Name (w_gw (set_sockets m w)) = gw_Name (w_gw w)" "gw_ID (w_gw (set_sockets m w)) = gw_ID (w_gw w)"
  "gw_AnnounceInterval (w_gw (set_sockets m w)) = gw_AnnounceInterval (w_gw w)"
  by (simp_all add: set_sockets_def)

lemma gw_simps_with_gsi [simp, gw_simps]:
  "w_out (with_gsi f w) = w_out w" "gw_sockets (w_gw (with_gsi f w)) = gw_sockets (w_gw w)"
  "gw_ID (w_gw (with_gsi f w)) = gw_ID (w_gw w)" "gw_Name (w_gw (with_gsi f w)) = gw_Name (w_gw w)"
  "gw_AnnounceInterval (w_gw (with_gsi f w)) = gw_AnnounceInterval (w_gw w)"
  "gw_gsi (w_gw (with_gsi f w)) = map_option (\<lambda>r. snd (f (w_heap w, r))) (gw_gsi (w_gw w))"
  "gw_gsi (w_gw w) = Some r \<Longrightarrow> w_heap (with_gsi f w) = fst (f (w_heap w, r))"
  "gw_gsi (w_gw w) = None \<Longrightarrow> w_heap (with_gsi f w) = w_heap w"
  by (auto simp: with_gsi_def split: option.split prod.split)

lemma gw_ok_emit [simp]: "gw_ok (emit e w) = gw_ok w"
  by (simp add: gw_ok_def)

lemma gw_ok_with_gsi:
  assumes "gw_ok w"
    and "\<And>r. gw_gsi (w_gw w) = Some r \<Longrightarrow> gsi_ok (w_heap w, r) \<Longrightarrow> gsi_ok (f (w_heap w, r))"
    and "\<And>r s n i. gw_gsi (w_gw w) = Some r \<Longrightarrow> gsi_ok (w_heap w, r)
      \<Longrightarrow> pinned (snd (f (w_heap w, r))) s n = Some i \<Longrightarrow> go_has (gw_sockets (w_gw w)) s"
  shows "gw_ok (with_gsi f w)"
proof (cases "gw_gsi (w_gw w)")
  case None
  with assms(1) show ?thesis by (simp add: gw_ok_def)
next
  case (Some r)
  with assms show ?thesis by (auto simp: gw_ok_def)
qed

section \<open>Closing sockets\<close>

text \<open>Removing a socket from the table together with its pins.\<close>

definition forget_socket :: "string range_order \<Rightarrow> string \<Rightarrow> ('p, 'v) gworld \<Rightarrow> ('p, 'v) gworld" where
  "forget_socket rg s w =
     with_gsi (UnmapSocket rg s) (set_sockets (AList.delete s (gw_sockets (w_gw w))) w)"

lemma forget_socket_emit: "forget_socket rg s (emit e w) = emit e (forget_socket rg s w)"
  by (simp add: forget_socket_def with_gsi_def emit_def set_sockets_def split: option.split prod.split)

lemma closeSocket_eq:
  "closeSocket rg s status reason w = (case map_of (gw_sockets (w_gw w)) s of None \<Rightarrow> w
     | Some sock \<Rightarrow> emit (ClosedSocket s status reason) (emit (SocketClose sock status reason) (forget_socket rg s w)))"
  by (simp add: closeSocket_def forget_socket_def with_gsi_def emit_def set_sockets_def
      split: option.split prod.split)

lemma handleSocketClosure_eq:
  "handleSocketClosure rg s status reason w = (case map_of (gw_sockets (w_gw w)) s of None \<Rightarrow> w
     | Some sock \<Rightarrow> emit (SocketClose sock status reason) (forget_socket rg s w))"
  by (simp add: handleSocketClosure_def forget_socket_def with_gsi_def emit_def set_sockets_def
      split: option.split prod.split)

lemma forget_socket_simps [simp, gw_simps]:
  "w_out (forget_socket rg s w) = w_out w"
  "gw_sockets (w_gw (forget_socket rg s w)) = AList.delete s (gw_sockets (w_gw w))"
  "gw_ID (w_gw (forget_socket rg s w)) = gw_ID (w_gw w)"
  "gw_gsi (w_gw (forget_socket rg s w)) = map_option (\<lambda>r. snd (UnmapSocket rg s (w_heap w, r))) (gw_gsi (w_gw w))"
  by (simp_all add: forget_socket_def)

lemma gw_ok_forget:
  assumes "gw_ok w" "range_ok rg"
  shows "gw_ok (forget_socket rg s w)"
proof (cases "gw_gsi (w_gw w)")
  case None
  with assms(1) show ?thesis by (simp add: gw_ok_def)
next
  case (Some r)
  with assms have ok: "gsi_ok (w_heap w, r)" by (simp add: gw_ok_def)
  have "gsi_ok (UnmapSocket rg s (w_heap w, r))" using ok assms(2) by (rule UnmapSocket_ok)
  then show ?thesis
    using assms Some pinned_UnmapSocket [OF ok assms(2), of s]
    by (auto simp: gw_ok_def forget_socket_def split: if_splits)
qed

lemma closeSocket_ok: "gw_ok w \<Longrightarrow> range_ok rg \<Longrightarrow> gw_ok (closeSocket rg s status reason w)"
  by (simp add: closeSocket_eq gw_ok_forget split: option.split)

lemma handleSocketClosure_ok: "gw_ok w \<Longrightarrow> range_ok rg \<Longrightarrow> gw_ok (handleSocketClosure rg s status reason w)"
  by (simp add: handleSocketClosure_eq gw_ok_forget split: option.split)

lemma HandleClose_ok: "gw_ok w \<Longrightarrow> range_ok rg \<Longrightarrow> gw_ok (HandleClose rg s w)"
  by (simp add: HandleClose_def closeSocket_ok)

text \<open>After a close the socket is in no table.\<close>

definition socket_gone :: "string \<Rightarrow> ('p, 'v) gworld \<Rightarrow> bool" where
  "socket_gone s w \<longleftrightarrow> \<not> go_has (gw_sockets (w_gw w)) s
     \<and> (\<forall>r. gw_gsi (w_gw w) = Some r \<longrightarrow> pinned r s = Map.empty)"

lemma gw_ok_not_open: "gw_ok w \<Longrightarrow> \<not> go_has (gw_sockets (w_gw w)) s \<Longrightarrow> socket_gone s w"
  unfolding gw_ok_def socket_gone_def by (metis (no_types) not_None_eq ext)

lemma closeSocket_gone:
  assumes "gw_ok w" "range_ok rg"
  shows "socket_gone s (closeSocket rg s status reason w)"
proof (rule gw_ok_not_open)
  show "gw_ok (closeSocket rg s status reason w)" using assms by (rule closeSocket_ok)
  show "\<not> go_has (gw_sockets (w_gw (closeSocket rg s status reason w))) s"
    by (simp add: closeSocket_eq go_has_def split: option.split)
qed

lemma closeSocket_out:
  "w_out (closeSocket rg s status reason w) = w_out w @
     (case map_of (gw_sockets (w_gw w)) s of None \<Rightarrow> []
      | Some sock \<Rightarrow> [SocketClose sock status reason, ClosedSocket s status reason])"
  by (simp add: closeSocket_eq split: option.split)

lemma closeSocket_sockets:
  "gw_sockets (w_gw (closeSocket rg s status reason w)) = AList.delete s (gw_sockets (w_gw w))"
  by (auto simp: closeSocket_eq map_of_eq_None_iff delete_id split: option.split)

section \<open>Announcements and pins\<close>

lemma with_gsi_Set_ok:
  assumes "gw_ok w" "\<And>r. gw_gsi (w_gw w) = Some r \<Longrightarrow> announce_ok (w_heap w, r) d"
  shows "gw_ok (with_gsi (SetServiceDescriptor now d) w)"
proof (rule gw_ok_with_gsi [OF assms(1)])
  fix r s n i
  assume r: "gw_gsi (w_gw w) = Some r"
  show "gsi_ok (SetServiceDescriptor now d (w_heap w, r))" if "gsi_ok (w_heap w, r)"
    using that assms(2) [OF r] by (rule SetServiceDescriptor_ok)
  assume p: "pinned (snd (SetServiceDescriptor now d (w_heap w, r))) s n = Some i"
  have "socketToInstance (snd (SetServiceDescriptor now d (w_heap w, r))) = socketToInstance r"
    by (auto simp: SetServiceDescriptor_def Let_def split: option.split)
  with p have "pinned r s n = Some i" by (simp add: pinned_def)
  with assms(1) r show "go_has (gw_sockets (w_gw w)) s" by (auto simp: gw_ok_def)
qed

lemma handleServiceAnnouncement_ok:
  assumes "gw_ok w" "\<And>r. gw_gsi (w_gw w) = Some r \<Longrightarrow> announce_ok (w_heap w, r) d"
  shows "gw_ok (handleServiceAnnouncement now d w)"
  using assms by (simp add: handleServiceAnnouncement_def Let_def with_gsi_Set_ok)

lemma with_gsi_Unset_ok:
  assumes "gw_ok w" "range_ok rg"
  shows "gw_ok (with_gsi (UnsetService rg i) w)"
proof (rule gw_ok_with_gsi [OF assms(1)])
  fix r s n j
  assume r: "gw_gsi (w_gw w) = Some r" and ok: "gsi_ok (w_heap w, r)"
  show "gsi_ok (UnsetService rg i (w_heap w, r))"
    using ok assms(2) by (simp add: UnsetService_def unsetServiceLocked_ok)
  assume "pinned (snd (UnsetService rg i (w_heap w, r))) s n = Some j"
  then have "pinned r s n = Some j"
    using pinned_UnsetService [OF ok assms(2)] by (simp split: if_splits)
  with assms(1) r show "go_has (gw_sockets (w_gw w)) s" by (auto simp: gw_ok_def)
qed

lemma gw_MapSocket_snd: "snd (gw_MapSocket n s w) = with_gsi (\<lambda>st. snd (MapSocket n s st)) w"
  by (simp add: gw_MapSocket_def with_gsi_def split: option.split prod.split)

lemma gw_MapSocket_fst:
  "gw_gsi (w_gw w) = Some r \<Longrightarrow> fst (gw_MapSocket n s w) = fst (MapSocket n s (w_heap w, r))"
  by (simp add: gw_MapSocket_def split: prod.split)

lemma pinned_MapSocket:
  assumes "pinned (snd (snd (MapSocket n s (h, r)))) s' n' = Some i"
  shows "pinned r s' n' = Some i \<or> s' = s"
proof -
  consider "closed r" | j where "\<not> closed r" "pinned r s n = Some j"
    | "\<not> closed r" "pinned r s n = None" "insts r n = []"
    | "\<not> closed r" "pinned r s n = None" "insts r n \<noteq> []" by fastforce
  then show ?thesis
  proof cases
    case 4
    then obtain t where "MapSocket n s (h, r) = ((sd_ID (h t), True, None), new_pin n s t (h, r))"
      by (rule MapSocket_new [where h = h])
    with assms show ?thesis by (simp add: pinned_new_pin split: if_splits)
  qed (use assms in \<open>simp_all add: MapSocket_closed MapSocket_pinned MapSocket_no_instance\<close>)
qed

lemma gw_MapSocket_ok:
  assumes "gw_ok w" "go_has (gw_sockets (w_gw w)) s"
  shows "gw_ok (snd (gw_MapSocket n s w))"
  unfolding gw_MapSocket_snd
proof (rule gw_ok_with_gsi [OF assms(1)])
  fix r s' n' i
  assume r: "gw_gsi (w_gw w) = Some r" and ok: "gsi_ok (w_heap w, r)"
  show "gsi_ok (snd (MapSocket n s (w_heap w, r)))" using ok by (rule MapSocket_ok)
  assume "pinned (snd (snd (MapSocket n s (w_heap w, r)))) s' n' = Some i"
  then show "go_has (gw_sockets (w_gw w)) s'"
    using assms r pinned_MapSocket by (fastforce simp: gw_ok_def)
qed

lemma register_socket_ok: "gw_ok w \<Longrightarrow> gw_ok (register_socket ctx w)"
  by (auto simp: gw_ok_def register_socket_def)

section \<open>The fail-over loop\<close>

text \<open>The instances of a service that the gateway's index holds.\<close>

definition candidates :: "('p, 'v) gworld \<Rightarrow> string \<Rightarrow> string set" where
  "candidates w n = (case gw_gsi (w_gw w) of None \<Rightarrow> {}
     | Some r \<Rightarrow> (\<lambda>d. sd_ID (w_heap w d)) ` set (insts r n))"

definition registered :: "('p, 'v) gworld \<Rightarrow> string set" where
  "registered w = (case gw_gsi (w_gw w) of None \<Rightarrow> {}
     | Some r \<Rightarrow> (\<lambda>d. sd_ID (w_heap w d)) ` set (descriptors r))"

definition gw_pin :: "('p, 'v) gworld \<Rightarrow> string \<Rightarrow> string \<Rightarrow> string option" where
  "gw_pin w s n = (case gw_gsi (w_gw w) of None \<Rightarrow> None | Some r \<Rightarrow> pinned r s n)"

lemma candidates_registered: "gw_ok w \<Longrightarrow> candidates w n \<subseteq> registered w"
  by (auto simp: candidates_def registered_def gw_ok_def gsi_ok_pair lists_ok_insts split: option.split)

lemma finite_registered [simp]: "finite (registered w)"
  by (simp add: registered_def split: option.split)

lemma registered_nonempty: "gw_ok w \<Longrightarrow> '''' \<notin> registered w"
  by (fastforce simp: registered_def gw_ok_def gsi_ok_pair lists_ok_def split: option.splits)

lemma gw_pin_candidate: "gw_ok w \<Longrightarrow> gw_pin w s n = Some i \<Longrightarrow> i \<in> candidates w n"
  by (fastforce simp: gw_pin_def candidates_def gw_ok_def gsi_ok_pair pins_ok_def lists_ok_insts split: option.splits)

text \<open>The three outcomes of mapping a socket.\<close>

lemma gw_MapSocket_cases:
  assumes "gw_ok w" "gw_gsi (w_gw w) \<noteq> None"
  obtains (none) "gw_MapSocket n s w = (('''', False, None), w)" "gw_pin w s n = None" "candidates w n = {}"
  | (old) i where "gw_MapSocket n s w = ((i, False, None), w)" "gw_pin w s n = Some i"
  | (new) i w1 where "gw_MapSocket n s w = ((i, True, None), w1)" "gw_pin w s n = None" "i \<in> candidates w n"
      "gw_pin w1 s n = Some i" "candidates w1 = candidates w" "registered w1 = registered w"
      "w_out w1 = w_out w" "gw_sockets (w_gw w1) = gw_sockets (w_gw w)" "gw_ID (w_gw w1) = gw_ID (w_gw w)"
      "gw_gsi (w_gw w1) \<noteq> None"
proof -
  obtain r where r: "gw_gsi (w_gw w) = Some r" using assms(2) by blast
  then have ok: "gsi_ok (w_heap w, r)" using assms(1) by (simp add: gw_ok_def)
  have same: "w\<lparr>w_heap := w_heap w, w_gw := (w_gw w)\<lparr>gw_gsi := Some r\<rparr>\<rparr> = w" using r by simp
  consider "closed r" | i where "\<not> closed r" "pinned r s n = Some i"
    | "\<not> closed r" "pinned r s n = None" "insts r n = []"
    | "\<not> closed r" "pinned r s n = None" "insts r n \<noteq> []" by fastforce
  then show ?thesis
  proof cases
    case 1
    with r ok same show ?thesis
      by (intro none) (auto simp: gw_MapSocket_def MapSocket_closed gw_pin_def candidates_def closed_no_pins
          gsi_ok_pair maps_ok_def insts_def)
  next
    case (2 i)
    with r same show ?thesis by (intro old [of i]) (auto simp: gw_MapSocket_def MapSocket_pinned gw_pin_def)
  next
    case 3
    with r same show ?thesis
      by (intro none) (auto simp: gw_MapSocket_def MapSocket_no_instance gw_pin_def candidates_def)
  next
    case 4
    then obtain t where t: "MapSocket n s (w_heap w, r) = ((sd_ID (w_heap w t), True, None), new_pin n s t (w_heap w, r))"
      "t \<in> set (insts r n)" by (rule MapSocket_new [where h = "w_heap w"])
    show ?thesis
    proof (rule new)
      show "gw_MapSocket n s w = ((sd_ID (w_heap w t), True, None), snd (gw_MapSocket n s w))"
        using t r by (metis gw_MapSocket_fst fst_conv prod.collapse)
    qed (use r 4 t in \<open>auto simp: gw_pin_def candidates_def registered_def gw_MapSocket_snd pinned_new_pin\<close>)
  qed
qed

lemma with_gsi_Unset_sets:
  assumes "gw_ok w" "range_ok rg"
  shows "candidates (with_gsi (UnsetService rg i) w) n = candidates w n - {i}"
    and "registered (with_gsi (UnsetService rg i) w) = registered w - {i}"
proof -
  have "candidates (with_gsi (UnsetService rg i) w) n = candidates w n - {i}
    \<and> registered (with_gsi (UnsetService rg i) w) = registered w - {i}"
  proof (cases "gw_gsi (w_gw w)")
    case None
    then show ?thesis by (simp add: candidates_def registered_def)
  next
    case (Some r)
    with assms have ok: "gsi_ok (w_heap w, r)" by (simp add: gw_ok_def)
    then have "gsi_ok (UnsetService rg i (w_heap w, r))"
      using assms(2) by (simp add: UnsetService_def unsetServiceLocked_ok)
    then have L: "lists_ok (w_heap w) r" "lists_ok (w_heap w) (snd (UnsetService rg i (w_heap w, r)))"
      using ok descriptors_UnsetService [OF ok assms(2), of i] by (auto simp: gsi_ok_def)
    then show ?thesis
      using Some descriptors_UnsetService [OF ok assms(2), of i]
      by (auto simp: candidates_def registered_def lists_ok_insts)
  qed
  then show "candidates (with_gsi (UnsetService rg i) w) n = candidates w n - {i}"
    "registered (with_gsi (UnsetService rg i) w) = registered w - {i}" by simp_all
qed

section \<open>Closing every socket\<close>

lemma close_one_eq:
  "close_one socks rg status reason k w = (case map_of socks (snd k) of None \<Rightarrow> w
     | Some sock \<Rightarrow> emit (SocketClose sock status reason) (with_gsi (UnmapSocket (rg_from (fst k) rg) (snd k)) w))"
  by (simp add: close_one_def with_gsi_def emit_def split: option.split prod.split)

lemma fold_close_one:
  assumes "range_ok rg" "distinct (map snd ks)" "set (map snd ks) \<subseteq> set (gomap_keys socks)"
    and "\<And>r. gw_gsi (w_gw w) = Some r \<Longrightarrow> gsi_ok (w_heap w, r)"
  shows "gw_sockets (w_gw (fold (close_one socks rg status reason) ks w)) = gw_sockets (w_gw w)
    \<and> w_out (fold (close_one socks rg status reason) ks w) =
        w_out w @ map (\<lambda>k. SocketClose (the (map_of socks (snd k))) status reason) ks
    \<and> (gw_gsi (w_gw w) = None \<longrightarrow> gw_gsi (w_gw (fold (close_one socks rg status reason) ks w)) = None)
    \<and> (\<forall>r r'. gw_gsi (w_gw w) = Some r \<longrightarrow> gw_gsi (w_gw (fold (close_one socks rg status reason) ks w)) = Some r'
        \<longrightarrow> gsi_ok (w_heap (fold (close_one socks rg status reason) ks w), r')
          \<and> (\<forall>s. pinned r' s = (if s \<in> set (map snd ks) then Map.empty else pinned r s)))"
  using assms(2-4)
proof (induction ks arbitrary: w)
  case Nil
  then show ?case by simp
next
  case (Cons k ks)
  obtain sock where sock: "map_of socks (snd k) = Some sock"
    using Cons.prems(2) by (cases "map_of socks (snd k)") (auto simp: map_of_eq_None_iff)
  let ?w = "emit (SocketClose sock status reason) (with_gsi (UnmapSocket (rg_from (fst k) rg) (snd k)) w)"
  have ok: "gsi_ok (w_heap ?w, r')" if a: "gw_gsi (w_gw ?w) = Some r'" for r'
  proof -
    obtain r where r: "gw_gsi (w_gw w) = Some r" using a by (cases "gw_gsi (w_gw w)") auto
    have "gsi_ok (UnmapSocket (rg_from (fst k) rg) (snd k) (w_heap w, r))"
      using Cons.prems(3) [OF r] range_ok_from [OF assms(1)] by (rule UnmapSocket_ok)
    with a r show ?thesis by auto
  qed
  have "distinct (map snd ks)" "set (map snd ks) \<subseteq> set (gomap_keys socks)"
    using Cons.prems(1,2) by auto
  note IH = Cons.IH [OF this ok]
  have eq: "fold (close_one socks rg status reason) (k # ks) w = fold (close_one socks rg status reason) ks ?w"
    by (simp add: close_one_eq sock)
  show ?case
  proof (cases "gw_gsi (w_gw w)")
    case None
    with IH show ?thesis unfolding eq by (simp add: sock)
  next
    case (Some r)
    have pin: "pinned (snd (UnmapSocket (rg_from (fst k) rg) (snd k) (w_heap w, r))) s' =
        (if s' = snd k then Map.empty else pinned r s')" for s'
      using Cons.prems(3) [OF Some] assms(1) by (simp add: pinned_UnmapSocket)
    with IH Some show ?thesis unfolding eq by (auto simp: sock fun_eq_iff)
  qed
qed

lemma map_snd_enumerate [simp]: "map snd (enumerate n xs) = xs"
  by (induction xs arbitrary: n) simp_all

lemma closeAllSockets_ok:
  assumes "gw_ok w" "range_ok rg"
  shows "gw_ok (closeAllSockets rg status reason w) \<and> gw_sockets (w_gw (closeAllSockets rg status reason w)) = []
    \<and> w_out (closeAllSockets rg status reason w) = w_out w
        @ map (\<lambda>s. SocketClose (the (map_of (gw_sockets (w_gw w)) s)) status reason)
            (rg 0 (gomap_keys (gw_sockets (w_gw w))))"
proof -
  let ?socks = "gw_sockets (w_gw w)"
  let ?ks = "enumerate 1 (rg 0 (gomap_keys ?socks))"
  let ?w' = "fold (close_one ?socks rg status reason) ?ks (set_sockets [] w)"
  have dist: "distinct (map snd ?ks)" and sub: "set (map snd ?ks) \<subseteq> set (gomap_keys ?socks)"
    using assms by (simp_all add: gw_ok_def gomap_ok_def)
  have ok: "gsi_ok (w_heap (set_sockets [] w), r)" if "gw_gsi (w_gw (set_sockets [] w)) = Some r" for r
    using assms(1) that by (simp add: gw_ok_def)
  note F = fold_close_one [OF assms(2) dist sub ok, of status reason]
  have "gw_ok ?w'"
    unfolding gw_ok_def
  proof (intro conjI allI impI)
    show "gomap_ok (gw_sockets (w_gw ?w'))" using F by simp
  next
    fix r' assume r': "gw_gsi (w_gw ?w') = Some r'"
    then obtain r where r: "gw_gsi (w_gw w) = Some r" using F by (cases "gw_gsi (w_gw w)") auto
    show "gsi_ok (w_heap ?w', r')" using F r r' by simp
    fix s n i assume "pinned r' s n = Some i"
    then have "s \<notin> set (gomap_keys ?socks)" "pinned r s n = Some i"
      using F r r' assms(2) by (auto split: if_splits)
    then show "go_has (gw_sockets (w_gw ?w')) s"
      using assms(1) r by (auto simp: gw_ok_def go_has_keys simp del: set_map)
  qed
  moreover have "map (\<lambda>k. SocketClose (the (map_of ?socks (snd k))) status reason) ?ks =
      map (\<lambda>s. SocketClose (the (map_of ?socks s)) status reason) (map snd ?ks)"
    by (simp only: map_map comp_def)
  ultimately show ?thesis using F by (simp add: closeAllSockets_def Let_def)
qed

section \<open>Pruning\<close>

lemma fold_closeSocket_ok:
  assumes "gw_ok w" "\<And>k. range_ok (rgs k)"
  shows "gw_ok (fold (\<lambda>(k, s). closeSocket (rgs k) s status reason) ks w)"
  using assms(1) by (induction ks arbitrary: w) (auto simp: closeSocket_ok assms(2))

lemma fold_closeSocket_sockets:
  "go_has (gw_sockets (w_gw (fold (\<lambda>(k, s). closeSocket (rgs k) s status reason) ks w))) x \<longleftrightarrow>
    go_has (gw_sockets (w_gw w)) x \<and> x \<notin> snd ` set ks"
  by (induction ks arbitrary: w) (auto simp: closeSocket_sockets)

lemma PruneStaleServices_keeps:
  assumes "gsi_ok (h, r)" "range_ok rg" "PruneStaleServices rg now threshold (h, r) = (ids, affected, h', r')"
  shows "gsi_ok (h', r') \<and> (\<forall>s n i. pinned r' s n = Some i \<longrightarrow> pinned r s n = Some i)"
proof (cases "closed r")
  case True
  with assms(1,3) show ?thesis by (simp add: PruneStaleServices_def)
next
  case False
  then have op: "\<not> closed (snd (h, r))" by simp
  show ?thesis using PruneStaleServices_eq [OF assms(1) op assms(2,3)]
    by (auto simp: unset_all_effect_def Let_def split: option.splits if_splits)
qed

lemma prune_world_ok:
  assumes "gw_ok w" "gw_gsi (w_gw w) = Some r" "range_ok rg"
    and "PruneStaleServices rg now threshold (w_heap w, r) = (ids, affected, h', r')"
  shows "gw_ok (w\<lparr>w_heap := h', w_gw := (w_gw w)\<lparr>gw_gsi := Some r'\<rparr>\<rparr>)"
proof -
  have ok: "gsi_ok (w_heap w, r)" using assms(1,2) by (simp add: gw_ok_def)
  have "gsi_ok (h', r')" "\<And>s n i. pinned r' s n = Some i \<Longrightarrow> pinned r s n = Some i"
    using PruneStaleServices_keeps [OF ok assms(3,4)] by blast+
  with assms(1,2) show ?thesis unfolding gw_ok_def by (simp, blast)
qed

lemma prune_tick_ok:
  assumes "gw_ok w" "range_ok rg" "\<And>k. range_ok (rgs k)"
  shows "gw_ok (prune_tick now rg rgs w)"
proof (cases "gw_gsi (w_gw w)")
  case None
  with assms(1) show ?thesis by (simp add: prune_tick_def)
next
  case (Some r)
  obtain ids affected h' r' where eq:
    "PruneStaleServices rg now (5 * gw_AnnounceInterval (w_gw w)) (w_heap w, r) = (ids, affected, h', r')"
    by (metis prod_cases4)
  note ok = prune_world_ok [OF assms(1) Some assms(2) eq]
  show ?thesis
    by (simp add: prune_tick_def Some eq fold_closeSocket_ok [OF ok assms(3)])
qed

lemma UnmapSocket_closed: "closed (snd (UnmapSocket rg s (h, r))) = closed r"
  by (auto simp: UnmapSocket_def split: option.split prod.split)

lemma fold_close_one_closed:
  "map_option closed (gw_gsi (w_gw (fold (close_one socks rg status reason) ks w)))
    = map_option closed (gw_gsi (w_gw w))"
proof (induction ks arbitrary: w)
  case (Cons k ks)
  have "map_option closed (gw_gsi (w_gw (close_one socks rg status reason k w))) = map_option closed (gw_gsi (w_gw w))"
    by (cases "gw_gsi (w_gw w)") (auto simp: close_one_eq UnmapSocket_closed split: option.split)
  then show ?case by (simp add: Cons.IH)
qed simp

lemma closeAllSockets_closed:
  "map_option closed (gw_gsi (w_gw (closeAllSockets rg status reason w))) = map_option closed (gw_gsi (w_gw w))"
  by (simp add: closeAllSockets_def Let_def fold_close_one_closed)

lemma UnmapSocket_instances:
  assumes "gsi_ok (h, r)" "range_ok rg"
  shows "(\<lambda>d. sd_ID (fst (UnmapSocket rg s (h, r)) d)) ` set (insts (snd (UnmapSocket rg s (h, r))) n) =
    (\<lambda>d. sd_ID (h d)) ` set (insts r n)"
proof (cases "closed r")
  case True
  then show ?thesis by (simp add: UnmapSocket_def)
next
  case False
  obtain h' r' where eq: "UnmapSocket rg s (h, r) = (h', r')" by fastforce
  note E = UnmapSocket_effect [OF assms(1) False assms(2) eq]
  show ?thesis by (simp add: eq E(1) insts_def E(3) if_distrib cong: if_cong)
qed

end
