(* ===== verification/IndexProps.thy ===== *)
theory IndexProps
  imports Registry
begin

text \<open>
  The properties of the service index: what every reachable index satisfies, how sockets are
  pinned and released, how paths are routed, and what pruning removes.
\<close>

section \<open>A concrete index\<close>

text \<open>
  Two instances of a service \<open>chat\<close>, announced one after the other to an empty index; routes are
  strings, matched by equality.
\<close>

definition sample_sd :: "string \<Rightarrow> string ServiceDescriptor" where
  "sample_sd iid = \<lparr>sd_Name = ''chat'', sd_ID = iid, sd_GatewayNames = [],
     sd_RouteDescriptors = [\<lparr>Pattern = ''/chat''\<rparr>], sd_LastSeenAt = None, sd_socketIDs = []\<rparr>"

definition sample0 :: "string istate" where
  "sample0 = (\<lambda>_. sample_sd ''none'', NewGatewayServiceIndexer)"

definition sample2 :: "string istate" where
  "sample2 = gsi_step rg_id (Announce 7 1 (sample_sd ''B'')) (gsi_step rg_id (Announce 5 0 (sample_sd ''A'')) sample0)"

lemmas sample_defs = sample0_def sample2_def sample_sd_def NewGatewayServiceIndexer_def
  SetServiceDescriptor_def Let_def

lemma sample2_reachable: "gsi_next\<^sup>*\<^sup>* sample0 sample2"
proof -
  let ?s1 = "gsi_step rg_id (Announce 5 0 (sample_sd ''A'')) sample0"
  have "gsi_next sample0 ?s1"
    by (rule gsi_next) (simp_all add: announce_ok_def sample_defs)
  moreover have "gsi_next ?s1 sample2"
    unfolding sample2_def by (rule gsi_next) (simp_all add: announce_ok_def sample_defs)
  ultimately show ?thesis by auto
qed

lemma sample0_new: "snd sample0 = NewGatewayServiceIndexer"
  by (simp add: sample0_def)

lemma sample2_ok: "gsi_ok sample2"
  using gsi.reachable_inv [OF sample0_new sample2_reachable] .

lemma sample2_open: "\<not> closed (snd sample2)"
  by code_simp

section \<open>The invariant and the specification\<close>





section \<open>Least connections and pinning\<close>

definition sockets_pinned :: "'p istate \<Rightarrow> string \<Rightarrow> string \<Rightarrow> nat" where
  "sockets_pinned st n i = card {s. pinned (snd st) s n = Some i}"

text \<open>
  C5. Least connections: a socket that gets a new pin for a service is pinned to a registered
  instance of that service to which no more sockets are pinned than to any other instance of it,
  and the returned ID is the one recorded.
\<close>

theorem MapSocket_least_connections:
  assumes "gsi_ok st" and "MapSocket n s st = ((i, True, err), st')"
  shows "err = None \<and> instance_named (registry_of st) n i
    \<and> (\<forall>j. instance_named (registry_of st) n j \<longrightarrow> sockets_pinned st n i \<le> sockets_pinned st n j)
    \<and> pinned (snd st') s n = Some i \<and> sockets_pinned st' n i = Suc (sockets_pinned st n i)"
proof -
  obtain h r where st: "st = (h, r)" by (cases st)
  have op: "\<not> closed r" using assms(2) MapSocket_closed [of r n s h] by (auto simp: st)
  have none: "pinned r s n = None"
    using assms(2) MapSocket_pinned [OF op, of s n _ h] by (cases "pinned r s n") (auto simp: st)
  have some: "insts r n \<noteq> []" using assms(2) MapSocket_no_instance [OF op none, of h] by (auto simp: st)
  from op none some obtain t where t: "MapSocket n s (h, r) = ((sd_ID (h t), True, None), new_pin n s t (h, r))"
    "t \<in> set (insts r n)"
    "\<And>d. d \<in> set (insts r n) \<Longrightarrow> length (sd_socketIDs (h t)) \<le> length (sd_socketIDs (h d))"
    by (rule MapSocket_new [where h = h]) blast
  have L: "lists_ok h r" using assms(1) by (simp add: st gsi_ok_pair)
  have pinned_count: "sockets_pinned st n (sd_ID (h d)) = length (sd_socketIDs (h d))"
    if "d \<in> set (insts r n)" for d
    using load_registry [OF assms(1)[unfolded st] that] by (simp add: st sockets_pinned_def load_def)
  have "finite {x. pinned r x n = Some (sd_ID (h t))}"
    using assms(1) t(2) L by (auto simp: st gsi_ok_pair pins_ok_def lists_ok_insts) (metis List.finite_set)
  then have "sockets_pinned st' n i = Suc (sockets_pinned st n i)"
    using assms(2) t(1) none
    by (auto simp: st sockets_pinned_def pinned_new_pin insert_Collect [symmetric] Collect_disj_eq)
  with assms(2) t L pinned_count show ?thesis
    by (auto simp: st instance_named_registry pinned_new_pin)
qed

theorem MapSocket_least_connections_witness:
  "sockets_pinned sample2 ''chat'' ''A'' \<le> sockets_pinned sample2 ''chat'' ''B''
    \<and> pinned (snd (snd (MapSocket ''chat'' ''s1'' sample2))) ''s1'' ''chat'' = Some ''A''"
proof -
  have "fst (MapSocket ''chat'' ''s1'' sample2) = (''A'', True, None)" by code_simp
  then obtain st' where m: "MapSocket ''chat'' ''s1'' sample2 = ((''A'', True, None), st')"
    by (metis prod.collapse)
  have L: "lists_ok (fst sample2) (snd sample2)" using sample2_ok by (simp add: gsi_ok_def)
  have "1 \<in> set (insts (snd sample2) ''chat'')" "sd_ID (fst sample2 1) = ''B''" by code_simp+
  then have "instance_named (registry_of (fst sample2, snd sample2)) ''chat'' ''B''"
    unfolding instance_named_registry [OF L] by blast
  then show ?thesis
    using MapSocket_least_connections [OF sample2_ok m] by (simp add: m del: registry_of_simps)
qed

inductive pin_safe :: "string \<Rightarrow> string \<Rightarrow> 'p istate \<Rightarrow> 'p istate \<Rightarrow> bool" for s i where
  pin_safe: "range_ok rg \<Longrightarrow> admissible op st \<Longrightarrow> op \<noteq> Unset i \<Longrightarrow> op \<noteq> Unmap s \<Longrightarrow> op \<noteq> CloseIndex
    \<Longrightarrow> (\<And>now threshold. op = Prune now threshold \<Longrightarrow> i \<notin> stale_in now threshold (registry_of st))
    \<Longrightarrow> pin_safe s i st (gsi_step rg op st)"

inductive_cases registry_stepE:
  "registry_step (Announce now d sd) R R'" "registry_step (Unset j) R R'"
  "registry_step (Prune now threshold) R R'" "registry_step (MapTo n s) R R'"
  "registry_step (Unmap s) R R'" "registry_step CloseIndex R R'"

lemma gsi_step_open:
  assumes "gsi_ok st" "\<not> closed (snd st)" "range_ok rg" "op \<noteq> CloseIndex"
  shows "\<not> closed (snd (gsi_step rg op st))"
proof (cases op)
  case (Announce now d sd)
  with assms show ?thesis by (cases st) (auto simp: SetServiceDescriptor_def Let_def split: option.split)
next
  case (Unset i)
  with unset_effect [OF assms(1-3), of i] assms(2) show ?thesis
    by (simp add: UnsetService_def unset_effect_def Let_def)
next
  case (Prune now threshold)
  obtain ids aff st' where eq: "PruneStaleServices rg now threshold st = (ids, aff, st')"
    by (metis prod_cases3)
  from PruneStaleServices_eq(3) [OF assms(1-3) eq] assms(2) eq show ?thesis
    by (simp add: Prune unset_all_effect_def Let_def)
next
  case (MapTo n s)
  with assms(2) show ?thesis
    by (cases st) (auto simp: MapSocket_def Let_def split: option.split)
next
  case (Unmap s)
  with assms(2) show ?thesis by (cases st) (auto simp: UnmapSocket_def split: option.split)
qed (use assms(4) in simp)

lemma pin_safe_step:
  assumes "pin_safe s i st st'" "gsi_ok st" "\<not> closed (snd st)" "pinned (snd st) s n = Some i"
  shows "gsi_ok st' \<and> \<not> closed (snd st') \<and> pinned (snd st') s n = Some i"
  using assms(1)
proof cases
  case (pin_safe rg op)
  have "registry_step op (registry_of st) (registry_of st')"
    unfolding pin_safe(1) using assms(2,3) pin_safe(2,3) by (rule gsi_step_refines)
  then have "pins (registry_of st') s n = Some i"
    using assms(4) pin_safe(4-7)
    by cases (auto simp: drop_instances_def)
  with assms(2,3) pin_safe show ?thesis by (simp add: gsi_step_ok gsi_step_open)
qed

text \<open>
  C6. Stickiness: once a socket is pinned to an instance, every later mapping of that socket for the
  service returns the same instance and reports an existing connection, whatever announcements,
  mappings, unmappings of other sockets, removals of other instances and prunes happen in between,
  as long as the instance itself is not removed, does not go stale and the socket is not unmapped.
\<close>

theorem MapSocket_sticky:
  assumes "gsi_ok st" and "\<not> closed (snd st)" and "pinned (snd st) s n = Some i"
    and "(pin_safe s i)\<^sup>*\<^sup>* st st'"
  shows "MapSocket n s st' = ((i, False, None), st')"
proof -
  from assms(4,1-3) have "\<not> closed (snd st') \<and> gsi_ok st' \<and> pinned (snd st') s n = Some i"
    by (induction rule: rtranclp_induct) (auto dest!: pin_safe_step)
  then show ?thesis by (cases st') (simp add: MapSocket_pinned)
qed

theorem MapSocket_sticky_witness:
  "let st = snd (MapSocket ''chat'' ''s1'' sample2); st' = gsi_step rg_id (Unset ''B'') st
   in MapSocket ''chat'' ''s1'' st' = ((''A'', False, None), st')"
proof -
  let ?st = "snd (MapSocket ''chat'' ''s1'' sample2)"
  have "gsi_ok ?st" by (rule MapSocket_ok [OF sample2_ok])
  moreover have "\<not> closed (snd ?st)" "pinned (snd ?st) ''s1'' ''chat'' = Some ''A''" by code_simp+
  moreover have "pin_safe ''s1'' ''A'' ?st (gsi_step rg_id (Unset ''B'') ?st)"
    by (rule pin_safe) simp_all
  ultimately show ?thesis unfolding Let_def by (intro MapSocket_sticky) auto
qed

section \<open>Routing\<close>

definition serves :: "('p \<Rightarrow> string \<Rightarrow> bool) \<Rightarrow> 'p istate \<Rightarrow> string \<Rightarrow> string \<Rightarrow> bool" where
  "serves mtch st n path \<longleftrightarrow> (\<exists>d\<in>set (descriptors (snd st)). sd_Name (fst st d) = n
     \<and> (\<exists>route\<in>set (sd_RouteDescriptors (fst st d)). mtch (Pattern route) path))"

lemma resolve_names_result:
  assumes "resolve_names mtch path h m names = (n, b)"
  shows "(b \<longrightarrow> n \<in> set names \<and> (\<exists>d\<in>set (go_get [] m n). \<exists>rt\<in>set (sd_RouteDescriptors (h d)). mtch (Pattern rt) path))
    \<and> (\<not> b \<longrightarrow> n = '''' \<and> (\<forall>n\<in>set names. \<forall>d\<in>set (go_get [] m n). \<forall>rt\<in>set (sd_RouteDescriptors (h d)). \<not> mtch (Pattern rt) path))"
  using assms by (induction names) (auto simp: list_ex_iff split: if_splits)

lemma ResolveService_sound:
  assumes "gsi_ok st" and "range_ok rg" and "ResolveService mtch rg path st = (n, found)"
  shows "if found then serves mtch st n path else n = '''' \<and> (\<forall>m. \<not> serves mtch st m path)"
proof -
  obtain h r where st: "st = (h, r)" by (cases st)
  have L: "lists_ok h r" using assms(1) by (simp add: st gsi_ok_pair)
  have inst: "d \<in> set (go_get [] (servicesByName r) m) \<longleftrightarrow> d \<in> set (descriptors r) \<and> sd_Name (h d) = m" for d m
    using lists_ok_insts [OF L, of d m] by (simp add: insts_def)
  show ?thesis
  proof (cases "closed r")
    case True
    with assms show ?thesis
      by (auto simp: st ResolveService_def serves_def gsi_ok_pair maps_ok_def)
  next
    case False
    then have "resolve_names mtch path h (servicesByName r) (rg 0 (gomap_keys (servicesByName r))) = (n, found)"
      using assms(3) by (simp add: st ResolveService_def)
    note R = resolve_names_result [OF this]
    have "sd_Name (h d) \<in> set (rg 0 (gomap_keys (servicesByName r)))" if "d \<in> set (descriptors r)" for d
      using lists_ok_names [OF L that] assms(2) by (simp add: go_has_keys)
    with R show ?thesis by (fastforce simp: st serves_def inst)
  qed
qed

text \<open>
  C7. Routing is sound and complete for every range order: the returned service has a registered
  instance with a route that matches the path, and no service is returned only when no registered
  instance has such a route.
\<close>

theorem ResolveService_correct:
  assumes "gsi_ok st" and "range_ok rg" and "ResolveService mtch rg path st = (n, found)"
  shows "if found then serves mtch st n path else n = '''' \<and> (\<forall>m. \<not> serves mtch st m path)"
  using assms by (rule ResolveService_sound)

theorem ResolveService_correct_witness: "serves (=) sample2 ''chat'' ''/chat''"
proof -
  have "ResolveService (=) rg_id ''/chat'' sample2 = (''chat'', True)" by code_simp
  from ResolveService_correct [OF sample2_ok range_ok_id this] show ?thesis by simp
qed

section \<open>Removal and pruning\<close>

lemma PruneStaleServices_facts:
  assumes "gsi_ok st" and "\<not> closed (snd st)" and "range_ok rg"
    and "PruneStaleServices rg now threshold st = (ids, affected, st')"
  shows "set ids = stale_in now threshold (registry_of st)
    \<and> distinct affected \<and> set affected = {s. \<exists>n. \<exists>i\<in>set ids. pinned (snd st) s n = Some i}
    \<and> FreshServiceDescriptors now threshold st' = ServiceDescriptors st'
    \<and> (\<forall>s n. \<forall>i\<in>set ids. pinned (snd st') s n \<noteq> Some i)"
proof -
  note E = PruneStaleServices_eq [OF assms]
  obtain h r where st: "st = (h, r)" by (cases st)
  obtain r' where st': "st' = (h, r')"
    using E(3) by (cases st') (simp add: st unset_all_effect_def Let_def)
  have L: "lists_ok h r" using assms(1) by (simp add: st gsi_ok_pair)
  have ids: "set ids = {sd_ID (h d) | d. d \<in> set (descriptors r) \<and> \<not> is_fresh now threshold (h d)}"
    by (auto simp: E(1) st stale_ids_def)
  have "is_fresh now threshold (h d)" if "d \<in> set (descriptors r')" for d
  proof -
    have "d \<in> set (descriptors r)" "sd_ID (h d) \<notin> set ids"
      using E(3) that by (auto simp: st st' unset_all_effect_def Let_def)
    then show ?thesis using ids by blast
  qed
  then have "FreshServiceDescriptors now threshold st' = ServiceDescriptors st'"
    by (simp add: FreshServiceDescriptors_def ServiceDescriptors_def st' filter_id_conv)
  moreover have "i \<in> set ids \<longleftrightarrow> i \<in> stale_in now threshold (registry_of st)" for i
  proof -
    have "i \<in> set ids \<longleftrightarrow> (\<exists>d\<in>set (descriptors r). sd_ID (h d) = i \<and>
        (case sd_LastSeenAt (h d) of None \<Rightarrow> True | Some t \<Rightarrow> now - t > threshold))"
      unfolding ids by (force simp: is_fresh_def split: option.splits)
    also have "\<dots> \<longleftrightarrow> i \<in> stale_in now threshold (registry_of st)"
      unfolding stale_in_def mem_Collect_eq st live_registry [OF L] by blast
    finally show ?thesis .
  qed
  ultimately show ?thesis
    using E(3-5) by (auto simp: st st' unset_all_effect_def Let_def split: option.splits)
qed

text \<open>
  Pruning is exact: it returns the IDs of the descriptors that were never seen or were last seen
  longer than the threshold ago, it reports each socket pinned to one of them exactly once and no
  other socket, every descriptor that stays is fresh, and no pin to a removed instance is left.
\<close>

lemma PruneStaleServices_exact:
  assumes "gsi_ok st" and "\<not> closed (snd st)" and "range_ok rg"
    and "PruneStaleServices rg now threshold st = (ids, affected, st')"
  shows "set ids = stale_in now threshold (registry_of st)
    \<and> distinct affected \<and> set affected = {s. \<exists>n. \<exists>i\<in>set ids. pinned (snd st) s n = Some i}
    \<and> FreshServiceDescriptors now threshold st' = ServiceDescriptors st'
    \<and> (\<forall>s n. \<forall>i\<in>set ids. pinned (snd st') s n \<noteq> Some i)"
  using assms by (rule PruneStaleServices_facts)

lemma PruneStaleServices_exact_witness:
  "stale_in 20 14 (registry_of sample2) = {''A''}"
proof -
  have ids: "fst (PruneStaleServices rg_id 20 14 sample2) = [''A'']" by code_simp
  obtain ids aff st' where eq: "PruneStaleServices rg_id 20 14 sample2 = (ids, aff, st')"
    by (metis prod_cases3)
  from PruneStaleServices_exact [OF sample2_ok sample2_open range_ok_id eq] ids show ?thesis
    by (auto simp: eq)
qed

text \<open>
  A removed instance is gone: it is in no snapshot, every other descriptor stays, and no mapping
  of any socket for any service returns it, whether the socket was pinned to it before or not.
\<close>

lemma UnsetService_gone:
  assumes "gsi_ok st" and "\<not> closed (snd st)" and "range_ok rg" and "i \<noteq> ''''"
  shows "ServiceDescriptors (UnsetService rg i st) = filter (\<lambda>d. sd_ID (fst st d) \<noteq> i) (ServiceDescriptors st)
    \<and> fst (fst (MapSocket n s (UnsetService rg i st))) \<noteq> i"
proof -
  obtain h r where st: "st = (h, r)" by (cases st)
  obtain r' where st': "unsetServiceLocked rg i st = (h, r')"
    using unset_effect [OF assms(1-3), of i] by (cases "unsetServiceLocked rg i st") (simp add: st unset_effect_def Let_def)
  have E: "unset_effect i (h, r) (h, r')" using unset_effect [OF assms(1-3), of i] by (simp add: st st' flip: st')
  have op: "\<not> closed r" "\<not> closed r'" and pins: "pinned r' s n \<noteq> Some i"
    and gone: "\<And>d. d \<in> set (insts r' n) \<Longrightarrow> sd_ID (h d) \<noteq> i"
    using E assms(2) by (auto simp: st unset_effect_def Let_def)
  have "fst (fst (MapSocket n s (h, r'))) \<noteq> i"
  proof -
    consider j where "pinned r' s n = Some j" | "pinned r' s n = None" "insts r' n = []"
      | "pinned r' s n = None" "insts r' n \<noteq> []" by fastforce
    then show ?thesis
    proof cases
      case 3
      then obtain t where "MapSocket n s (h, r') = ((sd_ID (h t), True, None), new_pin n s t (h, r'))"
        "t \<in> set (insts r' n)" by (rule MapSocket_new [OF op(2), where h = h])
      with gone show ?thesis by simp
    qed (use op pins assms(4) in \<open>auto simp: MapSocket_pinned MapSocket_no_instance\<close>)
  qed
  with E op show ?thesis
    by (simp add: UnsetService_def st' [unfolded st] ServiceDescriptors_def st unset_effect_def Let_def)
qed

lemma UnsetService_gone_witness:
  "fst (fst (MapSocket ''chat'' ''s1'' (UnsetService rg_id ''A'' sample2))) \<noteq> ''A''"
  using UnsetService_gone [OF sample2_ok sample2_open range_ok_id, of "''A''" "''chat''" "''s1''"] by simp

text \<open>
  Mapping and unmapping are inverse: when a socket without pins is mapped to a service and then
  unmapped, the registry is as before, for every range order.
\<close>

lemma UnmapSocket_MapSocket:
  assumes "gsi_ok st" and "\<not> closed (snd st)" and "range_ok rg" and "pinned (snd st) s = Map.empty"
  shows "registry_of (UnmapSocket rg s (snd (MapSocket n s st))) = registry_of st"
proof -
  let ?st = "snd (MapSocket n s st)"
  have ok: "gsi_ok ?st" using assms(1) by (rule MapSocket_ok)
  have op: "\<not> closed (snd ?st)"
    using gsi_step_open [OF assms(1-3), of "MapTo n s"] by simp
  have "registry_step (MapTo n s) (registry_of st) (registry_of ?st)"
    using assms(1,2) by (rule registry_map)
  then have "live (registry_of ?st) = live (registry_of st)
      \<and> (pins (registry_of ?st))(s := Map.empty) = pins (registry_of st)"
    using assms(4) by cases (auto simp del: registry_of_simps simp: fun_upd_idem_iff registry_of_simps(1))
  then show ?thesis by (simp add: registry_unmap [OF ok op assms(3)] del: registry_of_simps)
qed

lemma UnmapSocket_MapSocket_witness:
  "registry_of (UnmapSocket rg_id ''s1'' (snd (MapSocket ''chat'' ''s1'' sample2))) = registry_of sample2"
proof (rule UnmapSocket_MapSocket [OF sample2_ok sample2_open range_ok_id])
  have "socketToInstance (snd sample2) = []" by code_simp
  then show "pinned (snd sample2) ''s1'' = Map.empty" by (simp add: pinned_def)
qed

section \<open>The sockets of each instance\<close>

lemma collect_inner:
  "go_get [] (fold (\<lambda>n res. let i = go_get '''' sv n in AList.update i (go_get [] res i @ [s]) res) ks res) j
    = go_get [] res j @ replicate (length (filter (\<lambda>n. go_get '''' sv n = j) ks)) s"
  by (induction ks arbitrary: res) (auto simp: Let_def)

definition pin_count :: "(string, (string, string) gomap) gomap \<Rightarrow> string \<Rightarrow> string \<Rightarrow> nat" where
  "pin_count m s j = length (filter (\<lambda>n. go_get '''' (go_get [] m s) n = j) (gomap_keys (go_get [] m s)))"

lemma length_filter_range: "range_ok rg \<Longrightarrow> length (filter P (rg k ks)) = length (filter P ks)"
  by (metis range_ok_def mset_filter size_mset)

lemma collect_sockets_count:
  assumes "range_ok rg" "distinct ss"
  shows "count (mset (go_get [] (collect_sockets m rg k ss res) j)) s =
    count (mset (go_get [] res j)) s + (if s \<in> set ss then pin_count m s j else 0)"
  using assms(2)
proof (induction ss arbitrary: k res)
  case Nil
  then show ?case by simp
next
  case (Cons x ss)
  have "length (filter (\<lambda>n. go_get '''' (go_get [] m x) n = j) (rg k (gomap_keys (go_get [] m x)))) = pin_count m x j"
    unfolding pin_count_def by (rule length_filter_range [OF assms(1)])
  with Cons show ?case
    by (auto simp: Let_def collect_inner [unfolded Let_def])
qed

text \<open>
  The per-instance view agrees with the descriptors: for every registered instance the reported
  slice is a permutation of its own socket list, that is, each socket pinned to it exactly once.
\<close>

lemma SocketIDsByServiceInstance_correct:
  assumes "gsi_ok st" and "range_ok rg" and "d \<in> set (descriptors (snd st))"
  shows "mset (go_get [] (SocketIDsByServiceInstance rg st) (sd_ID (fst st d))) = mset (sd_socketIDs (fst st d))"
proof -
  obtain h r where st: "st = (h, r)" by (cases st)
  have M: "maps_ok r" and L: "lists_ok h r" and P: "pins_ok h r" and op: "\<not> closed r"
    using assms(1,3) by (auto simp: st gsi_ok_pair maps_ok_def)
  let ?m = "socketToInstance r" and ?i = "sd_ID (h d)"
  have sv: "gomap_ok (go_get [] ?m s)" for s using M by (auto simp: maps_ok_def intro: sockets_ok_get)
  have val: "go_get '''' (go_get [] ?m s) n = ?i \<longleftrightarrow> pinned r s n = Some ?i"
    if "n \<in> set (gomap_keys (go_get [] ?m s))" for s n
    using that by (auto simp: go_get_def [of "''''"] pinned_def pinned_in_def map_of_eq_None_iff split: option.split)
  have name: "pinned r s n = Some ?i \<Longrightarrow> n = sd_Name (h d)" for s n
    using P lists_ok_ID_inj [OF L _ assms(3)[unfolded st snd_conv]] by (force simp: pins_ok_def)
  have count: "pin_count ?m s ?i = (if pinned r s (sd_Name (h d)) = Some ?i then 1 else 0)" for s
  proof -
    let ?ks = "gomap_keys (go_get [] ?m s)"
    have "filter (\<lambda>n. go_get '''' (go_get [] ?m s) n = ?i) ?ks =
        filter (\<lambda>n. n = sd_Name (h d) \<and> pinned r s (sd_Name (h d)) = Some ?i) ?ks"
    proof (intro filter_cong refl)
      fix n assume "n \<in> set ?ks"
      then show "go_get '''' (go_get [] ?m s) n = ?i \<longleftrightarrow>
          n = sd_Name (h d) \<and> pinned r s (sd_Name (h d)) = Some ?i"
        using val [of n s] name [of s n] by metis
    qed
    moreover have "pinned r s n = Some ?i \<Longrightarrow> n \<in> set ?ks" for n
      by (auto simp: pinned_def pinned_in_def simp del: set_map dest: map_of_in_keys)
    moreover have "distinct ?ks" using sv by (simp add: gomap_ok_def)
    ultimately show ?thesis unfolding pin_count_def by (simp only: length_filter_eq) metis
  qed
  have "count (mset (go_get [] (SocketIDsByServiceInstance rg st) ?i)) s = count (mset (sd_socketIDs (h d))) s" for s
  proof -
    have "distinct (rg 0 (gomap_keys ?m))" "set (rg 0 (gomap_keys ?m)) = set (gomap_keys ?m)"
      using M assms(2) by (simp_all add: maps_ok_def sockets_ok_def gomap_ok_def)
    moreover have "pinned r s n = Some ?i \<Longrightarrow> s \<in> set (gomap_keys ?m)" for n
      by (cases "map_of ?m s") (auto simp: pinned_def pinned_in_def go_get_def simp del: set_map dest: map_of_in_keys)
    moreover have "distinct (sd_socketIDs (h d))"
      "set (sd_socketIDs (h d)) = {s. pinned r s (sd_Name (h d)) = Some ?i}"
      using P assms(3) by (auto simp: st pins_ok_def)
    then have "count (mset (sd_socketIDs (h d))) s = (if pinned r s (sd_Name (h d)) = Some ?i then 1 else 0)"
      by (simp add: distinct_count_atmost_1)
    ultimately show ?thesis
      using op by (auto simp: st SocketIDsByServiceInstance_def collect_sockets_count [OF assms(2)] count
          simp del: set_map)
  qed
  then show ?thesis by (simp add: st multiset_eq_iff)
qed

lemma SocketIDsByServiceInstance_correct_witness:
  "let st = snd (MapSocket ''chat'' ''s1'' sample2)
   in mset (go_get [] (SocketIDsByServiceInstance rg_id st) (sd_ID (fst st 0))) = mset (sd_socketIDs (fst st 0))"
proof -
  have "0 \<in> set (descriptors (snd (snd (MapSocket ''chat'' ''s1'' sample2))))" by code_simp
  from SocketIDsByServiceInstance_correct [OF MapSocket_ok [OF sample2_ok] range_ok_id this]
  show ?thesis by (simp add: Let_def)
qed

section \<open>The empty service name\<close>

text \<open>
  \<open>unsetServiceLocked\<close> uses the empty string for "no service found", so it does not release the
  sockets of an instance whose service name is empty: the pin stays and is returned later.
\<close>

definition nameless_sd :: "string ServiceDescriptor" where
  "nameless_sd = (sample_sd ''A'')\<lparr>sd_Name := ''''\<rparr>"

definition nameless :: "string istate" where
  "nameless = snd (MapSocket '''' ''s1'' (gsi_step rg_id (Announce 5 0 nameless_sd) sample0))"

text \<open>
  An instance announced with an empty service name keeps its pins after it is removed: for a
  socket pinned to it, the index returns the removed instance again, as an existing connection.
\<close>

lemma nameless_pin_survives_unset:
  "ServiceDescriptors (UnsetService rg_id ''A'' nameless) = []
    \<and> fst (MapSocket '''' ''s1'' (UnsetService rg_id ''A'' nameless)) = (''A'', False, None)"
  by code_simp

end
