(* ===== verification/GatewayProps.thy ===== *)
theory GatewayProps
  imports GatewayInv IndexProps
begin

text \<open>
  The properties of the gateway: the fail-over loop ends and either delivers the message once or
  closes the socket, closing is complete and idempotent, heartbeats report the sockets that are not
  open, and every handler keeps the invariant.
\<close>

section \<open>The outcome of the fail-over loop\<close>

definition failed :: "go_error option \<Rightarrow> bool" where
  "failed e \<longleftrightarrow> (\<exists>x. e = Some x \<and> \<not> errors_Is x ErrSlowConsumer)"

definition slow_result :: "go_error option \<Rightarrow> bool" where
  "slow_result e \<longleftrightarrow> (\<exists>x. e = Some x \<and> errors_Is x ErrSlowConsumer)"

lemma slow_result_simps [simp]:
  "\<not> slow_result None" "slow_result (Some e) = errors_Is e ErrSlowConsumer"
  by (simp_all add: slow_result_def)

definition close_effects :: "'v Context \<Rightarrow> go_error option \<Rightarrow> ('p, 'v) gworld \<Rightarrow> 'v gw_effect list" where
  "close_effects ctx e w =
     (let (status, reason) = (if slow_result e then (StatusPolicyViolation, ''Slow consumer'')
                              else (StatusGoingAway, ''Service unreachable''))
      in case map_of (gw_sockets (w_gw w)) (ctx_SocketID ctx) of
           None \<Rightarrow> []
         | Some sock \<Rightarrow> [SocketClose sock status reason, ClosedSocket (ctx_SocketID ctx) status reason])"

text \<open>
  \<open>tried\<close> lists the instances to which the message was sent, in order, and \<open>final\<close> is the result of
  the last send (a failure when nothing was sent).
\<close>

definition final_result :: "(nat \<Rightarrow> string \<Rightarrow> go_error option) \<Rightarrow> nat \<Rightarrow> string list \<Rightarrow> go_error option" where
  "final_result send k tried =
     (if tried = [] then Some (ErrOther ''nothing sent'') else send (k + length tried - 1) (last tried))"

definition handle_outcome :: "(nat \<Rightarrow> string \<Rightarrow> go_error option) \<Rightarrow> 'v Context \<Rightarrow> string \<Rightarrow> nat
    \<Rightarrow> ('p, 'v) gworld \<Rightarrow> string list \<Rightarrow> ('p, 'v) gworld \<Rightarrow> bool" where
  "handle_outcome send ctx n k w tried w' \<longleftrightarrow>
     gw_ok w' \<and> distinct tried \<and> set tried \<subseteq> candidates w n
     \<and> (\<forall>j. Suc j < length tried \<longrightarrow> failed (send (k + j) (tried ! j)))
     \<and> (\<forall>j<length tried. failed (send (k + j) (tried ! j)) \<longrightarrow> tried ! j \<notin> registered w')
     \<and> registered w' \<subseteq> registered w
     \<and> w_out w' = w_out w @ map (\<lambda>i. message_effect i ctx w) tried
          @ (if final_result send k tried = None then [] else close_effects ctx (final_result send k tried) w)
     \<and> (if final_result send k tried = None
        then gw_pin w' (ctx_SocketID ctx) n = Some (last tried) \<and> go_has (gw_sockets (w_gw w')) (ctx_SocketID ctx)
        else socket_gone (ctx_SocketID ctx) w')"

lemma sets_emit [simp]:
  "registered (emit e w) = registered w" "candidates (emit e w) n = candidates w n"
  "gw_pin (emit e w) s n = gw_pin w s n" "message_effect i ctx (emit e w) = message_effect i ctx w"
  by (simp_all add: registered_def candidates_def gw_pin_def message_effect_def split: option.split)

lemma registered_closeSocket:
  assumes "gw_ok w" "range_ok rg"
  shows "registered (closeSocket rg s status reason w) = registered w"
proof (cases "gw_gsi (w_gw w)")
  case None
  then show ?thesis by (simp add: closeSocket_eq registered_def split: option.split)
next
  case (Some r)
  with assms have ok: "gsi_ok (w_heap w, r)" by (simp add: gw_ok_def)
  obtain h' r' where eq: "UnmapSocket rg s (w_heap w, r) = (h', r')" by fastforce
  have "(\<lambda>d. sd_ID (h' d)) ` set (descriptors r') = (\<lambda>d. sd_ID (w_heap w d)) ` set (descriptors r)"
  proof (cases "closed r")
    case True
    with eq show ?thesis by (simp add: UnmapSocket_def)
  next
    case False
    note E = UnmapSocket_effect [OF ok False assms(2) eq]
    show ?thesis by (simp add: E(1,2) if_distrib cong: if_cong)
  qed
  then have "registered (forget_socket rg s w) = registered w"
    using Some eq by (simp add: registered_def forget_socket_def)
  then show ?thesis
    by (simp add: closeSocket_eq split: option.split)
qed

text \<open>The outcome when the loop closes the socket in a world \<open>w2\<close> reached after the sends.\<close>

lemma outcome_close:
  assumes "gw_ok w2" "range_ok rg" "gw_sockets (w_gw w2) = gw_sockets (w_gw w)"
    and "w_out w2 = w_out w @ map (\<lambda>i. message_effect i ctx w) tried"
    and "distinct tried" "set tried \<subseteq> candidates w n"
    and "\<forall>j. Suc j < length tried \<longrightarrow> failed (send (k + j) (tried ! j))"
    and "\<forall>j<length tried. failed (send (k + j) (tried ! j)) \<longrightarrow> tried ! j \<notin> registered w2"
    and "registered w2 \<subseteq> registered w"
    and "final_result send k tried = Some e"
    and "status = (if errors_Is e ErrSlowConsumer then StatusPolicyViolation else StatusGoingAway)"
    and "reason = (if errors_Is e ErrSlowConsumer then ''Slow consumer'' else ''Service unreachable'')"
  shows "handle_outcome send ctx n k w tried (closeSocket rg (ctx_SocketID ctx) status reason w2)"
proof -
  let ?w' = "closeSocket rg (ctx_SocketID ctx) status reason w2"
  have "w_out ?w' = w_out w @ map (\<lambda>i. message_effect i ctx w) tried @ close_effects ctx (Some e) w"
    using assms(3,4,11,12) by (auto simp: closeSocket_out close_effects_def split: option.split)
  then show ?thesis
    using assms closeSocket_ok [OF assms(1,2)] closeSocket_gone [OF assms(1,2)]
    by (simp add: handle_outcome_def registered_closeSocket [OF assms(1,2)])
qed

lemma final_result_Cons:
  "final_result send k (i # tried) = (if tried = [] then send k i else final_result send (Suc k) tried)"
  by (auto simp: final_result_def)

lemma outcome_Cons:
  assumes o: "handle_outcome send ctx n (Suc k) w3 tried w'"
    and "i \<in> candidates w n" "candidates w3 n \<subseteq> candidates w n - {i}" "registered w3 \<subseteq> registered w - {i}"
    and "failed (send k i)" "w_out w3 = w_out w @ [message_effect i ctx w]"
    and "gw_sockets (w_gw w3) = gw_sockets (w_gw w)" "gw_ID (w_gw w3) = gw_ID (w_gw w)"
    and "tried = [] \<Longrightarrow> \<not> slow_result (send k i)"
  shows "handle_outcome send ctx n k w (i # tried) w'"
proof -
  have msg: "message_effect j ctx w3 = message_effect j ctx w" for j
    using assms(8) by (simp add: message_effect_def)
  have close: "close_effects ctx e w3 = close_effects ctx e w" for e
    using assms(7) by (simp add: close_effects_def)
  have fin: "final_result send k (i # tried) = None \<longleftrightarrow> final_result send (Suc k) tried = None"
    using assms(5) by (auto simp: final_result_Cons failed_def final_result_def)
  have closes: "close_effects ctx (final_result send k (i # tried)) w = close_effects ctx (final_result send (Suc k) tried) w"
    using assms(5) by (auto simp: final_result_Cons failed_def final_result_def close_effects_def)
  have nonempty: "final_result send (Suc k) tried = None \<Longrightarrow> tried \<noteq> []"
    by (auto simp: final_result_def)
  have nth: "(\<forall>j. Suc j < length (i # tried) \<longrightarrow> failed (send (k + j) ((i # tried) ! j)))
      \<longleftrightarrow> (tried \<noteq> [] \<longrightarrow> failed (send k i)) \<and> (\<forall>j. Suc j < length tried \<longrightarrow> failed (send (Suc k + j) (tried ! j)))"
    by (cases tried) (auto simp: all_conj_distrib less_Suc_eq_0_disj nth_Cons split: nat.split)
  have gone: "(\<forall>j<length (i # tried). failed (send (k + j) ((i # tried) ! j)) \<longrightarrow> (i # tried) ! j \<notin> registered w')
      \<longleftrightarrow> (failed (send k i) \<longrightarrow> i \<notin> registered w')
        \<and> (\<forall>j<length tried. failed (send (Suc k + j) (tried ! j)) \<longrightarrow> tried ! j \<notin> registered w')"
    by (auto simp: less_Suc_eq_0_disj all_conj_distrib)
  show ?thesis
    unfolding handle_outcome_def nth gone fin closes
    using o assms(2-6) nonempty unfolding handle_outcome_def msg close by auto
qed

lemma handle_loop_outcome:
  assumes "gw_ok w" "gw_gsi (w_gw w) \<noteq> None" "go_has (gw_sockets (w_gw w)) (ctx_SocketID ctx)" "range_ok rg"
  shows "\<exists>tried w'. handle_loop send rg ctx n k w = Some w' \<and> handle_outcome send ctx n k w tried w'"
  using assms
proof (induction "card (registered w)" arbitrary: w k rule: less_induct)
  case less
  let ?s = "ctx_SocketID ctx" and ?msg = "\<lambda>i. message_effect i ctx w"
  have rg: "range_ok (rg_from j rg)" for j using less.prems(4) by simp
  note unfold = handle_loop.simps [of send rg ctx n k w]
  from less.prems(1,2) show ?case
  proof (cases rule: gw_MapSocket_cases [of w n ?s])
    case none
    let ?e = "ErrOther ''nothing sent''"
    have "handle_outcome send ctx n k w [] (closeSocket (rg_from (3 * k + 2) rg) ?s StatusGoingAway
        ''Service unreachable'' w)"
      using less.prems(1) rg by (intro outcome_close [where e = ?e]) (simp_all add: final_result_def)
    then show ?thesis by (subst unfold) (auto simp: none)
  next
    case (old i)
    have i: "i \<in> candidates w n" using less.prems(1) old(2) by (rule gw_pin_candidate)
    then have ne: "i \<noteq> ''''" using less.prems(1) candidates_registered registered_nonempty by blast
    let ?w2 = "emit (?msg i) w" and ?w3 = "with_gsi (UnsetService (rg_from (3 * k) rg) i) (emit (?msg i) w)"
    show ?thesis
    proof (cases "send k i")
      case None
      have "handle_outcome send ctx n k w [i] ?w2"
        using less.prems old(2) i None by (simp add: handle_outcome_def final_result_def failed_def)
      then show ?thesis by (subst unfold) (auto simp: old(1) ne None Let_def)
    next
      case (Some e)
      let ?w4 = "if errors_Is e ErrSlowConsumer then ?w2 else ?w3"
      let ?w' = "closeSocket (rg_from (3 * k + 2) rg) ?s
          (if errors_Is e ErrSlowConsumer then StatusPolicyViolation else StatusGoingAway)
          (if errors_Is e ErrSlowConsumer then ''Slow consumer'' else ''Service unreachable'') ?w4"
      have ok4: "gw_ok ?w4" using less.prems(1) rg by (simp add: with_gsi_Unset_ok)
      have reg: "registered ?w3 = registered w - {i}"
        using with_gsi_Unset_sets(2) [of ?w2 "rg_from (3 * k) rg" i] less.prems(1) rg by simp
      have "handle_outcome send ctx n k w [i] ?w'"
        using ok4 rg Some i reg
        by (intro outcome_close [where e = e]) (auto simp: final_result_def failed_def)
      then show ?thesis by (subst unfold) (auto simp: old(1) ne Some Let_def)
    qed
  next
    case (new i w1)
    have i: "i \<in> candidates w n" by (rule new(3))
    then have ne: "i \<noteq> ''''" and ireg: "i \<in> registered w"
      using less.prems(1) candidates_registered registered_nonempty by blast+
    have msg: "message_effect i ctx w1 = ?msg i" using new(9) by (simp add: message_effect_def)
    have ok1: "gw_ok w1" using gw_MapSocket_ok [OF less.prems(1,3), of n] by (simp add: new(1))
    let ?w2 = "emit (?msg i) w1"
    let ?w3 = "with_gsi (UnsetService (rg_from (3 * k) rg) i) ?w2"
    have ok3: "gw_ok ?w3" using ok1 rg by (simp add: with_gsi_Unset_ok)
    have sets: "candidates ?w3 n = candidates w n - {i}" "registered ?w3 = registered w - {i}"
      using with_gsi_Unset_sets [of ?w2 "rg_from (3 * k) rg" i] ok1 rg new(5,6) by simp_all
    show ?thesis
    proof (cases "send k i")
      case None
      have "handle_outcome send ctx n k w [i] ?w2"
        using ok1 less.prems i None new(4-8) by (simp add: handle_outcome_def final_result_def failed_def)
      then show ?thesis by (subst unfold) (auto simp: new(1) ne None msg Let_def)
    next
      case (Some e)
      show ?thesis
      proof (cases "errors_Is e ErrSlowConsumer")
        case True
        let ?w' = "closeSocket (rg_from (3 * k + 2) rg) ?s StatusPolicyViolation ''Slow consumer'' ?w2"
        have "handle_outcome send ctx n k w [i] ?w'"
          using ok1 rg Some True i new(6-8)
          by (intro outcome_close [where e = e]) (auto simp: final_result_def failed_def)
        then show ?thesis by (subst unfold) (auto simp: new(1) ne Some True msg Let_def)
      next
        case False
        have "card (registered ?w3) < card (registered w)"
          unfolding sets by (rule card_Diff1_less [OF finite_registered ireg])
        moreover have "gw_gsi (w_gw ?w3) \<noteq> None" using new(10) by simp
        moreover have "go_has (gw_sockets (w_gw ?w3)) ?s" using less.prems(3) new(8) by simp
        ultimately obtain tried w' where IH: "handle_loop send rg ctx n (Suc k) ?w3 = Some w'"
          "handle_outcome send ctx n (Suc k) ?w3 tried w'"
          using less.hyps [of ?w3 "Suc k"] ok3 less.prems(4) by blast
        have "handle_outcome send ctx n k w (i # tried) w'"
          by (rule outcome_Cons [OF IH(2)]) (use i Some False sets new(7-9) in \<open>simp_all add: failed_def\<close>)
        moreover have "handle_loop send rg ctx n k w = handle_loop send rg ctx n (Suc k) ?w3"
          by (subst unfold) (simp add: new(1) ne Some False msg Let_def)
        ultimately show ?thesis using IH(1) by metis
      qed
    qed
  qed
qed

section \<open>Runs of the gateway\<close>

text \<open>
  The events that change a gateway, each with the data Velaros, the clock, the transport and the
  range statements supply. \<open>StartRun\<close> and \<open>StopRun\<close> are the first and the last steps of a
  \<open>Connect\<close> call: a new index is stored; at the end it is closed and then all sockets are.
\<close>

datatype ('p, 'v) gw_event =
    StartRun
  | Announcement int addr "'p ServiceDescriptor"
  | MessageIn bool string "'v SocketMessage"
  | ClosureIn string Status string
  | Receive "nat \<Rightarrow> string \<Rightarrow> go_error option" "'v Context"
  | ClientClosed string
  | AnnounceTick int
  | PruneTick int
  | StopRun

fun gw_step :: "('p \<Rightarrow> string \<Rightarrow> bool) \<Rightarrow> (nat \<Rightarrow> string range_order) \<Rightarrow> ('p, 'v) gw_event
    \<Rightarrow> ('p, 'v) gworld \<Rightarrow> ('p, 'v) gworld option" where
  "gw_step mtch rgs StartRun w = Some (w\<lparr>w_gw := (w_gw w)\<lparr>gw_gsi := Some NewGatewayServiceIndexer\<rparr>\<rparr>)"
| "gw_step mtch rgs (Announcement now d sd) w =
     Some (handleServiceAnnouncement now d (w\<lparr>w_heap := (w_heap w)(d := sd)\<rparr>))"
| "gw_step mtch rgs (MessageIn sendFails socketID msg) w = Some (handleGatewayMessage sendFails (rgs 0) socketID msg w)"
| "gw_step mtch rgs (ClosureIn socketID status reason) w = Some (handleSocketClosure (rgs 0) socketID status reason w)"
| "gw_step mtch rgs (Receive send ctx) w = Handle mtch send (rgs 0) ctx w"
| "gw_step mtch rgs (ClientClosed socketID) w = Some (HandleClose (rgs 0) socketID w)"
| "gw_step mtch rgs (AnnounceTick now) w = Some (announce_tick now w)"
| "gw_step mtch rgs (PruneTick now) w = Some (prune_tick now (rgs 0) (\<lambda>k. rgs (Suc k)) w)"
| "gw_step mtch rgs StopRun w = Some (closeAllSockets (rgs 0) StatusGoingAway ''Gateway is stopping''
     (with_gsi (\<lambda>(h, r). (h, gsi_Close r)) w))"

fun gw_admissible :: "('p, 'v) gw_event \<Rightarrow> ('p, 'v) gworld \<Rightarrow> bool" where
  "gw_admissible (Announcement now d sd) w \<longleftrightarrow>
     (\<forall>r. gw_gsi (w_gw w) = Some r \<longrightarrow> announce_ok ((w_heap w)(d := sd), r) d)"
| "gw_admissible _ _ \<longleftrightarrow> True"

inductive gw_next :: "('p \<Rightarrow> string \<Rightarrow> bool) \<Rightarrow> ('p, 'v) gworld \<Rightarrow> ('p, 'v) gworld \<Rightarrow> bool" for mtch where
  gw_next: "(\<And>k. range_ok (rgs k)) \<Longrightarrow> gw_admissible ev w \<Longrightarrow> gw_step mtch rgs ev w = Some w' \<Longrightarrow> gw_next mtch w w'"

definition gw_new :: "('p, 'v) gworld \<Rightarrow> bool" where
  "gw_new w \<longleftrightarrow> (\<exists>name iid interval timeout. w_gw w = NewGateway name iid interval timeout) \<and> w_out w = []"

lemma Handle_CanHandle:
  "Handle mtch send rg ctx w =
     (if CanHandle mtch rg ctx w
      then handle_loop send (rg_from 1 rg) ctx
        (fst (ResolveService mtch rg (ctx_Path ctx) (w_heap w, the (gw_gsi (w_gw w))))) 0 (register_socket ctx w)
      else Some (emit CtxNext w))"
  by (simp add: Handle_def CanHandle_def CanServePath_def split: option.split prod.split)

lemma register_socket_simps [simp, gw_simps]:
  "w_heap (register_socket ctx w) = w_heap w" "w_out (register_socket ctx w) = w_out w"
  "gw_gsi (w_gw (register_socket ctx w)) = gw_gsi (w_gw w)"
  "gw_sockets (w_gw (register_socket ctx w)) = AList.update (ctx_SocketID ctx) (ctx_Socket ctx) (gw_sockets (w_gw w))"
  by (simp_all add: register_socket_def)

lemma Handle_loop_outcome:
  assumes "gw_ok w" "range_ok rg" "CanHandle mtch rg ctx w"
  shows "\<exists>tried w'. handle_loop send (rg_from 1 rg) ctx n 0 (register_socket ctx w) = Some w'
    \<and> handle_outcome send ctx n 0 (register_socket ctx w) tried w'"
proof (rule handle_loop_outcome)
  show "gw_gsi (w_gw (register_socket ctx w)) \<noteq> None"
    using assms(3) by (auto simp: CanHandle_def CanServePath_def split: option.splits)
qed (use assms in \<open>simp_all add: register_socket_ok\<close>)

lemma Handle_ok:
  assumes "gw_ok w" "range_ok rg" "Handle mtch send rg ctx w = Some w'"
  shows "gw_ok w'"
proof (cases "CanHandle mtch rg ctx w")
  case True
  let ?n = "fst (ResolveService mtch rg (ctx_Path ctx) (w_heap w, the (gw_gsi (w_gw w))))"
  from assms(3) True have "handle_loop send (rg_from 1 rg) ctx ?n 0 (register_socket ctx w) = Some w'"
    by (simp add: Handle_CanHandle)
  with Handle_loop_outcome [OF assms(1,2) True, of send ?n] show ?thesis
    by (simp add: handle_outcome_def)
next
  case False
  with assms show ?thesis by (auto simp: Handle_CanHandle)
qed

lemma gsi_Close_pinned [simp]: "pinned (gsi_Close r) s = Map.empty"
  by (simp add: gsi_Close_def pinned_def)

lemma gw_step_ok:
  assumes "gw_ok w" "\<And>k. range_ok (rgs k)" "gw_admissible ev w" "gw_step mtch rgs ev w = Some w'"
  shows "gw_ok w'"
proof (cases ev)
  case StartRun
  have "gw_ok (w\<lparr>w_gw := (w_gw w)\<lparr>gw_gsi := Some NewGatewayServiceIndexer\<rparr>\<rparr>)"
    using assms(1) by (simp add: gw_ok_def NewGatewayServiceIndexer_ok)
      (simp add: NewGatewayServiceIndexer_def pinned_def)
  with assms(4) show ?thesis by (simp add: StartRun)
next
  case (Announcement now d sd)
  have adm: "announce_ok ((w_heap w)(d := sd), r) d" if "gw_gsi (w_gw w) = Some r" for r
    using assms(3) that by (simp add: Announcement)
  have "gw_ok (w\<lparr>w_heap := (w_heap w)(d := sd)\<rparr>)"
    using assms(1) adm unfolding gw_ok_def by (auto simp: gsi_ok_alloc announce_ok_def)
  then have "gw_ok (handleServiceAnnouncement now d (w\<lparr>w_heap := (w_heap w)(d := sd)\<rparr>))"
    by (rule handleServiceAnnouncement_ok) (simp add: adm)
  with assms(4) show ?thesis by (simp add: Announcement)
next
  case StopRun
  have "gw_ok (with_gsi (\<lambda>(h, r). (h, gsi_Close r)) w)"
    by (rule gw_ok_with_gsi [OF assms(1)]) (simp_all add: gsi_Close_ok gsi_Close_pinned)
  with assms(2,4) show ?thesis
    using closeAllSockets_ok [of "with_gsi (\<lambda>(h, r). (h, gsi_Close r)) w" "rgs 0"] by (auto simp: StopRun)
next
  case (Receive send ctx)
  with assms(4) show ?thesis using Handle_ok [OF assms(1,2)] by simp
qed (use assms in \<open>auto simp: handleGatewayMessage_def Let_def closeSocket_ok handleSocketClosure_ok
    HandleClose_ok prune_tick_ok announce_tick_def split: option.splits if_splits\<close>)

interpretation gw: invariant_machine gw_new "gw_next mtch" gw_ok for mtch
proof
  show "gw_ok w" if "gw_new w" for w :: "('a, 'b) gworld"
    using that by (auto simp: gw_new_def gw_ok_def NewGateway_def)
  show "gw_ok w'" if "gw_ok w" "gw_next mtch w w'" for w w' :: "('a, 'b) gworld"
    using that(2,1) by cases (auto intro: gw_step_ok)
qed

section \<open>A concrete gateway\<close>

text \<open>A running gateway with the two \<open>chat\<close> instances of \<open>sample2\<close>, and a message on socket \<open>s1\<close>.\<close>

definition sample_new :: "(string, unit) gworld" where
  "sample_new = \<lparr>w_heap = fst sample0, w_gw = NewGateway ''gw'' ''G'' 9 30, w_out = []\<rparr>"

definition sample_gw :: "(string, unit) gworld" where
  "sample_gw = \<lparr>w_heap = fst sample2,
     w_gw = (NewGateway ''gw'' ''G'' 9 30)\<lparr>gw_gsi := Some (snd sample2)\<rparr>, w_out = []\<rparr>"

definition sample_ctx :: "unit Context" where
  "sample_ctx = \<lparr>ctx_Path = ''/chat'', ctx_Socket = 1, ctx_SocketID = ''s1'', ctx_Headers = [],
     ctx_RemoteAddr = '''', ctx_MessageType = 1, ctx_RawData = [1, 2], ctx_Data = [2], ctx_Meta = []\<rparr>"

definition fails_on_A :: "nat \<Rightarrow> string \<Rightarrow> go_error option" where
  "fails_on_A k i = (if i = ''A'' then Some (ErrOther ''no responders'') else None)"

lemma sample_gw_ok: "gw_ok sample_gw"
proof -
  have "socketToInstance (snd sample2) = []" by code_simp
  then have "pinned (snd sample2) s n = None" for s n by (simp add: pinned_def)
  moreover have "gsi_ok (fst sample2, snd sample2)" using sample2_ok by simp
  ultimately show ?thesis by (simp add: gw_ok_def sample_gw_def NewGateway_def)
qed

definition sample_open :: "(string, unit) gworld" where
  "sample_open = the (Handle (=) fails_on_A rg_id sample_ctx sample_gw)"

lemma sample_open_eq: "Handle (=) fails_on_A rg_id sample_ctx sample_gw = Some sample_open"
proof -
  have "Handle (=) fails_on_A rg_id sample_ctx sample_gw \<noteq> None" by code_simp
  then show ?thesis by (auto simp: sample_open_def)
qed

lemma sample_open_ok: "gw_ok sample_open"
  using Handle_ok [OF sample_gw_ok range_ok_id sample_open_eq] .

section \<open>Properties\<close>



lemma sample_new_new: "gw_new sample_new"
  by (auto simp: gw_new_def sample_new_def)



lemma closed_absorbs:
  assumes "\<not> go_has (gw_sockets (w_gw w)) s"
  shows "closeSocket rg s status reason w = w" "handleSocketClosure rg s status reason w = w"
    "handleGatewayMessage fails rg s msg w = w" "handleSocketHeartbeats [s] w = [s]"
  using assms by (simp_all add: closeSocket_def handleSocketClosure_def handleGatewayMessage_def
      handleSocketHeartbeats_def go_has_def)

text \<open>
  C8. Closing an open socket is complete and happens once: the socket is closed with the given
  status and the transport is told, in this order; the socket leaves the table and loses all its
  pins while every other socket and pin stays. After that, closing it again, the gateway's own
  broadcast coming back and a late reply for it all change nothing, and heartbeats report it dead.
\<close>

theorem closeSocket_once:
  assumes "gw_ok w" and "range_ok rg" and "map_of (gw_sockets (w_gw w)) s = Some sock"
    and "w' = closeSocket rg s status reason w"
  shows "w_out w' = w_out w @ [SocketClose sock status reason, ClosedSocket s status reason]
    \<and> map_of (gw_sockets (w_gw w')) = (map_of (gw_sockets (w_gw w)))(s := None)
    \<and> gw_pin w' = (gw_pin w)(s := Map.empty)
    \<and> closeSocket rg' s status' reason' w' = w' \<and> handleSocketClosure rg' s status' reason' w' = w'
    \<and> handleGatewayMessage fails rg' s msg w' = w' \<and> handleSocketHeartbeats [s] w' = [s]"
proof -
  have socks: "gw_sockets (w_gw w') = AList.delete s (gw_sockets (w_gw w))"
    by (simp add: assms(4) closeSocket_sockets)
  then have gone: "\<not> go_has (gw_sockets (w_gw w')) s" by simp
  have "gw_pin w' x n = ((gw_pin w)(s := Map.empty)) x n" for x n
  proof (cases "gw_gsi (w_gw w)")
    case None
    then show ?thesis by (simp add: assms(3,4) closeSocket_eq gw_pin_def)
  next
    case (Some r)
    then have "gsi_ok (w_heap w, r)" using assms(1) by (simp add: gw_ok_def)
    then show ?thesis using Some assms(2)
      by (simp add: assms(3,4) closeSocket_eq gw_pin_def pinned_UnmapSocket)
  qed
  then have "gw_pin w' = (gw_pin w)(s := Map.empty)" by (intro ext)
  moreover have "w_out w' = w_out w @ [SocketClose sock status reason, ClosedSocket s status reason]"
    using assms(3) by (simp add: assms(4) closeSocket_out)
  ultimately show ?thesis using socks closed_absorbs [OF gone] by (simp only: delete_conv' simp_thms)
qed

theorem closeSocket_once_witness:
  "w_out (closeSocket rg_id ''s1'' StatusGoingAway ''bye'' sample_open)
     = w_out sample_open @ [SocketClose 1 StatusGoingAway ''bye'', ClosedSocket ''s1'' StatusGoingAway ''bye'']"
proof -
  have s: "map_of (gw_sockets (w_gw sample_open)) ''s1'' = Some 1" by code_simp
  from closeSocket_once [OF sample_open_ok range_ok_id s refl, of StatusGoingAway "''bye''" rg_id
      StatusGoingAway "''bye''" False undefined]
  show ?thesis by blast
qed

definition close_pair :: "(string, socket) gomap \<Rightarrow> Status \<Rightarrow> string \<Rightarrow> string \<Rightarrow> 'v gw_effect list" where
  "close_pair socks status reason s = [SocketClose (the (map_of socks s)) status reason, ClosedSocket s status reason]"

lemma fold_closeSocket_out:
  assumes "distinct (map snd ks)" "\<forall>k\<in>set ks. go_has (gw_sockets (w_gw w)) (snd k)"
  shows "w_out (fold (\<lambda>(k, s). closeSocket (rgs k) s status reason) ks w) =
    w_out w @ concat (map (close_pair (gw_sockets (w_gw w)) status reason) (map snd ks))"
  using assms
proof (induction ks arbitrary: w)
  case Nil
  then show ?case by simp
next
  case (Cons x ks)
  obtain k s where x: "x = (k, s)" by fastforce
  let ?w = "closeSocket (rgs k) s status reason w"
  have eq: "map (close_pair (gw_sockets (w_gw ?w)) status reason) (map snd ks) =
      map (close_pair (gw_sockets (w_gw w)) status reason) (map snd ks)"
    using Cons.prems(1) by (auto simp: x close_pair_def closeSocket_sockets)
  have still_open: "\<forall>k\<in>set ks. go_has (gw_sockets (w_gw ?w)) (snd k)"
    using Cons.prems by (force simp: x closeSocket_sockets)
  have d: "distinct (map snd ks)" using Cons.prems(1) by simp
  note IH = Cons.IH [OF d still_open, unfolded eq]
  obtain sock where "map_of (gw_sockets (w_gw w)) s = Some sock"
    using Cons.prems(2) by (auto simp: x go_has_def)
  then have "w_out ?w = w_out w @ close_pair (gw_sockets (w_gw w)) status reason s"
    by (simp add: closeSocket_out close_pair_def)
  with IH show ?case by (simp add: x)
qed

lemma fold_closeSocket_registered:
  assumes "gw_ok w" "\<And>k. range_ok (rgs k)"
  shows "registered (fold (\<lambda>(k, s). closeSocket (rgs k) s status reason) ks w) = registered w"
  using assms(1) by (induction ks arbitrary: w) (auto simp: closeSocket_ok registered_closeSocket assms(2))

text \<open>
  C9. A prune tick drops exactly the instances that were not seen for five announce intervals and
  closes exactly the sockets pinned to one of them, each once, with the status "going away" and one
  broadcast to the transport; all other sockets stay open.
\<close>

theorem prune_tick_closes_affected:
  assumes "gw_ok w" and "range_ok rg" and "\<And>k. range_ok (rgs k)"
    and "gw_gsi (w_gw w) = Some r" and "\<not> closed r"
    and "gone = stale_in now (5 * gw_AnnounceInterval (w_gw w)) (registry_of (w_heap w, r))"
    and "hit = {s. \<exists>n. \<exists>i\<in>gone. gw_pin w s n = Some i}"
    and "w' = prune_tick now rg rgs w"
  shows "(\<exists>ss. distinct ss \<and> set ss = hit \<and> w_out w' = w_out w
        @ concat (map (close_pair (gw_sockets (w_gw w)) StatusGoingAway ''Service unreachable'') ss))
    \<and> (\<forall>s. go_has (gw_sockets (w_gw w')) s \<longleftrightarrow> go_has (gw_sockets (w_gw w)) s \<and> s \<notin> hit)
    \<and> registered w' = registered w - gone"
proof -
  obtain ids affected h' r' where eq:
    "PruneStaleServices rg now (5 * gw_AnnounceInterval (w_gw w)) (w_heap w, r) = (ids, affected, h', r')"
    by (metis prod_cases4)
  have ok: "gsi_ok (w_heap w, r)" using assms(1,4) by (simp add: gw_ok_def)
  have op: "\<not> closed (snd (w_heap w, r))" using assms(5) by simp
  note P = PruneStaleServices_facts [OF ok op assms(2) eq]
  note E = PruneStaleServices_eq [OF ok op assms(2) eq]
  let ?w1 = "w\<lparr>w_heap := h', w_gw := (w_gw w)\<lparr>gw_gsi := Some r'\<rparr>\<rparr>"
  have ok1: "gw_ok ?w1" using prune_world_ok [OF assms(1,4,2) eq] .
  have hit: "set affected = hit" "distinct affected"
    using P assms(4,6,7) by (auto simp: gw_pin_def)
  have w': "w' = fold (\<lambda>(k, s). closeSocket (rgs k) s StatusGoingAway ''Service unreachable'')
      (enumerate 0 affected) ?w1"
    by (simp add: assms(4,8) prune_tick_def eq)
  have "\<forall>k\<in>set (enumerate 0 affected). go_has (gw_sockets (w_gw ?w1)) (snd k)"
  proof
    fix k assume "k \<in> set (enumerate 0 affected)"
    then have "snd k \<in> set affected" by (metis image_eqI list.set_map map_snd_enumerate)
    then show "go_has (gw_sockets (w_gw ?w1)) (snd k)"
      using assms(1,4) by (auto simp: hit assms(7) gw_pin_def gw_ok_def)
  qed
  then have out: "w_out w' = w_out w @ concat (map (close_pair (gw_sockets (w_gw w)) StatusGoingAway
      ''Service unreachable'') affected)"
    unfolding w' using hit(2) by (subst fold_closeSocket_out) simp_all
  have "registered w' = registered ?w1"
    unfolding w' using ok1 assms(3) by (rule fold_closeSocket_registered)
  also have "\<dots> = registered w - gone"
    using E(3) P assms(4,6) by (auto simp: registered_def unset_all_effect_def Let_def)
  finally have reg: "registered w' = registered w - gone" .
  have "snd ` set (enumerate 0 affected) = hit"
    by (metis hit(1) list.set_map map_snd_enumerate)
  with out reg hit show ?thesis
    by (auto simp: w' fold_closeSocket_sockets)
qed

theorem prune_tick_closes_affected_witness:
  "\<not> go_has (gw_sockets (w_gw (prune_tick 60 rg_id (\<lambda>_. rg_id) sample_open))) ''s1''"
proof -
  obtain r where r: "gw_gsi (w_gw sample_open) = Some r" "\<not> closed r"
  proof -
    have "map_option closed (gw_gsi (w_gw sample_open)) = Some False" by code_simp
    with that show ?thesis by auto
  qed
  have pin: "gw_pin sample_open ''s1'' ''chat'' = Some ''B''" by code_simp
  have ok: "gsi_ok (w_heap sample_open, r)" using sample_open_ok r by (simp add: gw_ok_def)
  have "1 \<in> set (descriptors r)"
  proof -
    have "map_option (\<lambda>r. 1 \<in> set (descriptors r)) (gw_gsi (w_gw sample_open)) = Some True" by code_simp
    then show ?thesis by (simp add: r)
  qed
  moreover have "sd_ID (w_heap sample_open 1) = ''B''" "sd_LastSeenAt (w_heap sample_open 1) = Some 7"
    "gw_AnnounceInterval (w_gw sample_open) = 9" by code_simp+
  moreover have "lists_ok (w_heap sample_open) r" using ok by (simp add: gsi_ok_pair)
  ultimately have live: "live (registry_of (w_heap sample_open, r)) ''B'' =
      Some (sd_Name (w_heap sample_open 1), sd_RouteDescriptors (w_heap sample_open 1), Some 7)"
    and interval: "gw_AnnounceInterval (w_gw sample_open) = 9"
    by (auto simp del: registry_of_simps simp: live_registry)
  then have "''B'' \<in> stale_in 60 (5 * gw_AnnounceInterval (w_gw sample_open)) (registry_of (w_heap sample_open, r))"
    by (simp add: stale_in_def live interval del: registry_of_simps)
  then show ?thesis
    using prune_tick_closes_affected [OF sample_open_ok range_ok_id range_ok_id r refl refl refl, where now = 60] pin
    by blast
qed

text \<open>
  C10. Stopping a gateway closes every open socket exactly once, in the order of the range
  statement, leaves no socket and no pin, and from then on no path can be served: every message goes
  to the next handler until the gateway is connected again.
\<close>

theorem stop_closes_all:
  fixes rgs :: "nat \<Rightarrow> string range_order"
  assumes "gw_ok w" and "\<And>k. range_ok (rgs k)" and "gw_step mtch rgs StopRun w = Some w'"
  shows "gw_sockets (w_gw w') = [] \<and> gw_pin w' = (\<lambda>_. Map.empty)
    \<and> (\<exists>ss. distinct ss \<and> set ss = {s. go_has (gw_sockets (w_gw w)) s}
        \<and> w_out w' = w_out w @ map (\<lambda>s. SocketClose (the (map_of (gw_sockets (w_gw w)) s))
              StatusGoingAway ''Gateway is stopping'') ss)
    \<and> Handle mtch' send rg' ctx w' = Some (emit CtxNext w')"
proof -
  let ?w = "with_gsi (\<lambda>(h, r). (h, gsi_Close r)) w"
  let ?ss = "rgs 0 0 (gomap_keys (gw_sockets (w_gw w)))"
  have ok: "gw_ok ?w" by (rule gw_ok_with_gsi [OF assms(1)]) (simp_all add: gsi_Close_ok)
  have w': "w' = closeAllSockets (rgs 0) StatusGoingAway ''Gateway is stopping'' ?w" using assms(3) by simp
  note C = closeAllSockets_ok [OF ok assms(2) [of 0], of StatusGoingAway "''Gateway is stopping''"]
  have "gomap_ok (gw_sockets (w_gw w))" using assms(1) by (simp add: gw_ok_def)
  then have ss: "distinct ?ss" "set ?ss = {s. go_has (gw_sockets (w_gw w)) s}"
    using assms(2) by (auto simp: gomap_ok_def go_has_keys)
  have "gw_ok w'" "gw_sockets (w_gw w') = []" using C by (simp_all add: w')
  moreover from this have "gw_pin w' s n = None" for s n
    by (auto simp: gw_ok_def gw_pin_def split: option.split)
  moreover have "\<not> CanHandle mtch' rg' ctx w'"
    using closeAllSockets_closed [of "rgs 0" StatusGoingAway "''Gateway is stopping''" ?w]
    by (cases "gw_gsi (w_gw w)")
      (auto simp: w' CanHandle_def CanServePath_def ResolveService_def gsi_Close_def split: option.splits)
  ultimately show ?thesis using C ss by (auto simp: w' Handle_CanHandle)
qed

theorem stop_closes_all_witness:
  "\<exists>w'. gw_step (=) (\<lambda>_. rg_id) StopRun sample_open = Some w' \<and> gw_sockets (w_gw w') = []"
proof -
  obtain w' where "gw_step (=) (\<lambda>_. rg_id) StopRun sample_open = Some w'" by simp
  from stop_closes_all [OF sample_open_ok range_ok_id this] this show ?thesis by blast
qed

text \<open>Fail-over when the socket is not pinned and an instance answers.\<close>

lemma handle_loop_unpinned:
  assumes "gw_ok w" "gw_pin w (ctx_SocketID ctx) n = None" "candidates w n \<noteq> {}"
    and "\<And>i. i \<in> candidates w n \<Longrightarrow> send k i = None"
  shows "\<exists>j w'. j \<in> candidates w n \<and> handle_loop send rg ctx n k w = Some w'
    \<and> gw_pin w' (ctx_SocketID ctx) n = Some j \<and> gw_sockets (w_gw w') = gw_sockets (w_gw w)
    \<and> w_out w' = w_out w @ [message_effect j ctx w]"
proof -
  have gsi: "gw_gsi (w_gw w) \<noteq> None" using assms(3) by (auto simp: candidates_def)
  from assms(1) gsi show ?thesis
  proof (cases rule: gw_MapSocket_cases [of w n "ctx_SocketID ctx"])
    case (new i w1)
    have "i \<noteq> ''''" using new(3) assms(1) candidates_registered registered_nonempty by blast
    then have "handle_loop send rg ctx n k w = Some (emit (message_effect i ctx w1) w1)"
      by (subst handle_loop.simps) (simp add: new(1) assms(4) [OF new(3)])
    then show ?thesis using new by (auto simp: message_effect_def)
  qed (use assms in auto)
qed

text \<open>
  C11. Removing an instance after a failed send does not close the other sockets pinned to it: each
  stays open without a pin, and its next message is delivered to a different instance of the
  service, without the client being told.
\<close>

theorem failover_moves_other_sockets:
  assumes "gw_ok w" and "range_ok rg" and "gw_pin w (ctx_SocketID ctx) n = Some i"
    and "candidates w n \<noteq> {i}" and "\<And>k j. send k j = None"
  shows "let w1 = with_gsi (UnsetService rg i) w in
    go_has (gw_sockets (w_gw w1)) (ctx_SocketID ctx) \<and> w_out w1 = w_out w
    \<and> (\<exists>j w2. j \<noteq> i \<and> handle_loop send rg' ctx n 0 w1 = Some w2
        \<and> w_out w2 = w_out w1 @ [message_effect j ctx w1] \<and> gw_pin w2 (ctx_SocketID ctx) n = Some j
        \<and> go_has (gw_sockets (w_gw w2)) (ctx_SocketID ctx))"
proof -
  let ?w = "with_gsi (UnsetService rg i) w" and ?s = "ctx_SocketID ctx"
  obtain r where r: "gw_gsi (w_gw w) = Some r" "pinned r ?s n = Some i"
    using assms(3) by (auto simp: gw_pin_def split: option.splits)
  then have ok: "gsi_ok (w_heap w, r)" and is_open: "go_has (gw_sockets (w_gw w)) ?s"
    using assms(1) by (auto simp: gw_ok_def)
  have unpinned: "gw_pin ?w ?s n = None"
    using r pinned_UnsetService [OF ok assms(2)] by (simp add: gw_pin_def)
  have cand: "candidates ?w n = candidates w n - {i}"
    using assms(1,2) by (rule with_gsi_Unset_sets)
  have "i \<in> candidates w n" using assms(1,3) by (rule gw_pin_candidate)
  then have "candidates ?w n \<noteq> {}" using assms(4) cand by blast
  from handle_loop_unpinned [where send = send and k = 0 and rg = rg', OF with_gsi_Unset_ok [OF assms(1,2)] unpinned this assms(5)]
  obtain j w2 where "j \<in> candidates w n - {i}" "handle_loop send rg' ctx n 0 ?w = Some w2"
    "gw_pin w2 ?s n = Some j" "gw_sockets (w_gw w2) = gw_sockets (w_gw w)"
    "w_out w2 = w_out w @ [message_effect j ctx ?w]"
    by (auto simp: cand)
  then show ?thesis using is_open by (auto simp: Let_def)
qed

text \<open>A gateway on which \<open>s1\<close> is pinned to the instance A and a second instance B is registered.\<close>

definition sample_pinned :: "(string, unit) gworld" where
  "sample_pinned = the (Handle (=) (\<lambda>_ _. None) rg_id sample_ctx sample_gw)"

lemma sample_pinned_eq: "Handle (=) (\<lambda>_ _. None) rg_id sample_ctx sample_gw = Some sample_pinned"
proof -
  have "Handle (=) (\<lambda>_ _. None) rg_id sample_ctx sample_gw \<noteq> None" by code_simp
  then show ?thesis by (auto simp: sample_pinned_def)
qed

lemma sample_pinned_ok: "gw_ok sample_pinned"
  using Handle_ok [OF sample_gw_ok range_ok_id sample_pinned_eq] .

theorem failover_moves_other_sockets_witness:
  "\<exists>j w2. j \<noteq> ''A'' \<and> gw_pin w2 ''s1'' ''chat'' = Some j \<and> go_has (gw_sockets (w_gw w2)) ''s1''
    \<and> handle_loop (\<lambda>_ _. None) rg_id sample_ctx ''chat'' 0
        (with_gsi (UnsetService rg_id ''A'') sample_pinned) = Some w2"
proof -
  have s: "ctx_SocketID sample_ctx = ''s1''" by (simp add: sample_ctx_def)
  have pin: "gw_pin sample_pinned (ctx_SocketID sample_ctx) ''chat'' = Some ''A''" by code_simp
  have "map_option (\<lambda>r. map (\<lambda>d. sd_ID (w_heap sample_pinned d)) (insts r ''chat'')) (gw_gsi (w_gw sample_pinned))
      = Some [''A'', ''B'']" by code_simp
  then obtain r where r: "gw_gsi (w_gw sample_pinned) = Some r"
    "map (\<lambda>d. sd_ID (w_heap sample_pinned d)) (insts r ''chat'') = [''A'', ''B'']" by auto
  have "candidates sample_pinned ''chat'' = {''A'', ''B''}"
    by (simp add: candidates_def r flip: set_map)
  then have "candidates sample_pinned ''chat'' \<noteq> {''A''}" by auto
  from failover_moves_other_sockets [OF sample_pinned_ok range_ok_id pin this refl, of rg_id]
  show ?thesis unfolding s Let_def by blast
qed

text \<open>
  C12. A closure that arrives between the registration of a socket and the mapping of its message
  is lost: \<open>handleSocketClosure\<close> (like \<open>HandleClose\<close>) removes the socket, but the rest of the handler
  still pins it, so the index counts a socket that is closed, and no later close of that socket
  releases the pin.
\<close>

theorem closure_race_leaks_pin:
  assumes "gw_ok w" and "range_ok rg" and "gw_pin w (ctx_SocketID ctx) n = None"
    and "candidates w n \<noteq> {}" and "\<And>k i. send k i = None"
  shows "\<exists>j w2. handle_loop send rg' ctx n 0
        (handleSocketClosure rg (ctx_SocketID ctx) status reason (register_socket ctx w)) = Some w2
    \<and> gw_pin w2 (ctx_SocketID ctx) n = Some j \<and> \<not> go_has (gw_sockets (w_gw w2)) (ctx_SocketID ctx)
    \<and> closeSocket rg'' (ctx_SocketID ctx) status' reason' w2 = w2"
proof -
  let ?s = "ctx_SocketID ctx" and ?w = "handleSocketClosure rg (ctx_SocketID ctx) status reason (register_socket ctx w)"
  obtain r where r: "gw_gsi (w_gw w) = Some r" using assms(4) by (auto simp: candidates_def split: option.splits)
  then have ok: "gsi_ok (w_heap w, r)" using assms(1) by (simp add: gw_ok_def)
  have ok': "gw_ok ?w" using assms(1,2) by (simp add: register_socket_ok handleSocketClosure_ok)
  have gone: "\<not> go_has (gw_sockets (w_gw ?w)) ?s" by (simp add: handleSocketClosure_eq)
  have pin: "gw_pin ?w ?s n = None"
    using gw_ok_not_open [OF ok' gone] by (auto simp: socket_gone_def gw_pin_def split: option.split)
  have "candidates ?w n \<noteq> {}"
    using assms(4) UnmapSocket_instances [OF ok assms(2), of ?s]
    by (simp add: handleSocketClosure_eq candidates_def r forget_socket_def)
  from handle_loop_unpinned [where send = send and k = 0 and rg = rg', OF ok' pin this assms(5)]
  obtain j w2 where "handle_loop send rg' ctx n 0 ?w = Some w2" "gw_pin w2 ?s n = Some j"
    "gw_sockets (w_gw w2) = gw_sockets (w_gw ?w)" by blast
  then show ?thesis using gone closed_absorbs(1) by metis
qed

theorem closure_race_leaks_pin_witness:
  "\<exists>j w2. handle_loop (\<lambda>_ _. None) rg_id sample_ctx ''chat'' 0 (handleSocketClosure rg_id ''s1''
        StatusGoingAway ''bye'' (register_socket sample_ctx sample_gw)) = Some w2
    \<and> gw_pin w2 ''s1'' ''chat'' = Some j \<and> \<not> go_has (gw_sockets (w_gw w2)) ''s1''"
proof -
  have s: "ctx_SocketID sample_ctx = ''s1''" by (simp add: sample_ctx_def)
  have pin: "gw_pin sample_gw (ctx_SocketID sample_ctx) ''chat'' = None" by code_simp
  have "map_option (\<lambda>r. insts r ''chat'') (gw_gsi (w_gw sample_gw)) = Some [0, 1]" by code_simp
  then have "candidates sample_gw ''chat'' \<noteq> {}" by (auto simp: candidates_def split: option.split)
  from closure_race_leaks_pin [OF sample_gw_ok range_ok_id pin this refl, of rg_id StatusGoingAway
      "''bye''" rg_id StatusGoingAway "''bye''"]
  show ?thesis unfolding s by blast
qed

end
