(* ===== verification/Lifecycle.thy ===== *)
theory Lifecycle
  imports Descriptors Machines
begin

text \<open>
  The run-once-at-a-time lifecycle of gateways and services, \<open>lifecycle.go\<close>. Contexts and channels
  are named by numbers taken from one counter. A critical section under the mutex is one definition;
  what a method does after it releases the mutex is another, because other calls may run in between:
  the last section composes them into the step relation of all concurrent calls.
\<close>

section \<open>Contexts and channels\<close>

type_synonym ctx = nat
type_synonym chan = nat

record lifecycle =
  lc_cancel :: "ctx option"
  lc_done :: "chan option"
  lc_ready :: "chan option"

record lworld =
  lw_next :: nat
  lw_closed :: "chan list"
  lw_canceled :: "ctx list"
  lw_parents :: "(ctx \<times> ctx) list"
  lw_lc :: lifecycle

text \<open>
  \<open>lw_parents\<close> has one entry per context made by \<open>context.WithCancel\<close>, the newest first, so the
  ancestors of a context are found further down the list. The cancel function of a context is the
  context itself.
\<close>

fun ctx_done :: "ctx list \<Rightarrow> (ctx \<times> ctx) list \<Rightarrow> ctx \<Rightarrow> bool" where
  "ctx_done canceled [] c \<longleftrightarrow> c \<in> set canceled"
| "ctx_done canceled ((child, parent) # ps) c \<longleftrightarrow>
     c \<in> set canceled \<or> ctx_done canceled ps (if child = c then parent else c)"

definition make_chan :: "lworld \<Rightarrow> chan \<times> lworld" where
  "make_chan w = (lw_next w, w\<lparr>lw_next := Suc (lw_next w)\<rparr>)"

definition WithCancel :: "ctx \<Rightarrow> lworld \<Rightarrow> ctx \<times> lworld" where
  "WithCancel parent w =
     (lw_next w, w\<lparr>lw_next := Suc (lw_next w), lw_parents := (lw_next w, parent) # lw_parents w\<rparr>)"

definition cancel_ctx :: "ctx option \<Rightarrow> lworld \<Rightarrow> lworld" where
  "cancel_ctx cancel w = (case cancel of None \<Rightarrow> w | Some c \<Rightarrow> w\<lparr>lw_canceled := c # lw_canceled w\<rparr>)"

text \<open>Closing a closed channel panics, which is \<open>None\<close>.\<close>

definition close_chan :: "chan \<Rightarrow> lworld \<Rightarrow> lworld option" where
  "close_chan c w = (if c \<in> set (lw_closed w) then None else Some (w\<lparr>lw_closed := c # lw_closed w\<rparr>))"

section \<open>The methods\<close>

text \<open>\<open>if l.ready == nil { l.ready = make(chan struct{}) }\<close>, and the channel then in \<open>l.ready\<close>.\<close>

definition ensure_ready :: "lworld \<Rightarrow> chan \<times> lworld" where
  "ensure_ready w = (case lc_ready (lw_lc w) of
       Some c \<Rightarrow> (c, w)
     | None \<Rightarrow> (case make_chan w of (c, w1) \<Rightarrow> (c, w1\<lparr>lw_lc := (lw_lc w1)\<lparr>lc_ready := Some c\<rparr>\<rparr>)))"

definition lc_begin :: "ctx \<Rightarrow> go_error \<Rightarrow> lworld \<Rightarrow> (go_error + ctx) \<times> lworld" where
  "lc_begin parent alreadyErr w =
     (if lc_cancel (lw_lc w) \<noteq> None then (Inl alreadyErr, w)
      else
        let (ctx, w1) = WithCancel parent w;
            (done, w2) = make_chan (w1\<lparr>lw_lc := (lw_lc w1)\<lparr>lc_cancel := Some ctx\<rparr>\<rparr>);
            w3 = snd (ensure_ready (w2\<lparr>lw_lc := (lw_lc w2)\<lparr>lc_done := Some done\<rparr>\<rparr>))
        in (Inr ctx, w3))"

definition markReady :: "lworld \<Rightarrow> lworld option" where
  "markReady w = (case ensure_ready w of
     (c, w1) \<Rightarrow> if c \<in> set (lw_closed w1) then Some w1 else close_chan c w1)"

definition readyChan :: "lworld \<Rightarrow> chan \<times> lworld" where
  "readyChan w = ensure_ready w"

definition interrupt_lock :: "lworld \<Rightarrow> ctx option" where
  "interrupt_lock w = lc_cancel (lw_lc w)"

definition end_lock :: "lworld \<Rightarrow> (ctx option \<times> chan option) \<times> lworld" where
  "end_lock w = ((lc_cancel (lw_lc w), lc_done (lw_lc w)),
     w\<lparr>lw_lc := \<lparr>lc_cancel = None, lc_done = None, lc_ready = None\<rparr>\<rparr>)"

definition end_finish :: "ctx option \<times> chan option \<Rightarrow> lworld \<Rightarrow> lworld option" where
  "end_finish cd w = (case cd of (cancel, done) \<Rightarrow>
     let w1 = cancel_ctx cancel w
     in case done of None \<Rightarrow> Some w1 | Some d \<Rightarrow> close_chan d w1)"

definition close_lock :: "lworld \<Rightarrow> ctx option \<times> chan option" where
  "close_lock w = (lc_cancel (lw_lc w), lc_done (lw_lc w))"

text \<open>The wait of \<open>close\<close> can end when there is no channel to wait for or the channel is closed.\<close>

definition close_returns :: "chan option \<Rightarrow> lworld \<Rightarrow> bool" where
  "close_returns done w = (case done of None \<Rightarrow> True | Some d \<Rightarrow> d \<in> set (lw_closed w))"

section \<open>Concurrent calls\<close>

text \<open>
  The calls in progress: \<open>ls_runs\<close> are the runs between a successful \<open>begin\<close> and their \<open>end\<close>,
  \<open>ls_ending\<close> the \<open>end\<close> calls past their critical section, \<open>ls_cancels\<close> the cancel functions that an
  \<open>interrupt\<close> or \<open>close\<close> took and has yet to call, \<open>ls_waiting\<close> the channels on which \<open>close\<close> calls
  wait. Contexts and channels of other code come from the same counter; the parent of a run may be
  canceled at any time.
\<close>

record lsys =
  ls_w :: lworld
  ls_runs :: "ctx list"
  ls_ending :: "(ctx option \<times> chan option) list"
  ls_cancels :: "ctx option list"
  ls_waiting :: "chan list"
  ls_panicked :: bool

definition finish_step :: "lworld option \<Rightarrow> lsys \<Rightarrow> lsys" where
  "finish_step r s = (case r of None \<Rightarrow> s\<lparr>ls_panicked := True\<rparr> | Some w \<Rightarrow> s\<lparr>ls_w := w\<rparr>)"

inductive lc_step :: "lsys \<Rightarrow> lsys \<Rightarrow> bool" where
  step_begin: "parent < lw_next (ls_w s) \<Longrightarrow> lc_begin parent e (ls_w s) = (Inr c, w)
     \<Longrightarrow> lc_step s (s\<lparr>ls_w := w, ls_runs := c # ls_runs s\<rparr>)"
| step_begin_refused: "lc_begin parent e (ls_w s) = (Inl e, w) \<Longrightarrow> lc_step s (s\<lparr>ls_w := w\<rparr>)"
| step_mark_ready: "c \<in> set (ls_runs s) \<Longrightarrow> lc_step s (finish_step (markReady (ls_w s)) s)"
| step_ready_chan: "lc_step s (s\<lparr>ls_w := snd (readyChan (ls_w s))\<rparr>)"
| step_interrupt: "lc_step s (s\<lparr>ls_cancels := interrupt_lock (ls_w s) # ls_cancels s\<rparr>)"
| step_close: "lc_step s (s\<lparr>ls_cancels := fst (close_lock (ls_w s)) # ls_cancels s,
     ls_waiting := (case snd (close_lock (ls_w s)) of None \<Rightarrow> ls_waiting s | Some d \<Rightarrow> d # ls_waiting s)\<rparr>)"
| step_cancel: "c \<in> set (ls_cancels s)
     \<Longrightarrow> lc_step s (s\<lparr>ls_w := cancel_ctx c (ls_w s), ls_cancels := remove1 c (ls_cancels s)\<rparr>)"
| step_end: "c \<in> set (ls_runs s) \<Longrightarrow> end_lock (ls_w s) = (cd, w)
     \<Longrightarrow> lc_step s (s\<lparr>ls_w := w, ls_runs := remove1 c (ls_runs s), ls_ending := cd # ls_ending s\<rparr>)"
| step_end_finish: "cd \<in> set (ls_ending s)
     \<Longrightarrow> lc_step s (finish_step (end_finish cd (ls_w s)) (s\<lparr>ls_ending := remove1 cd (ls_ending s)\<rparr>))"
| step_close_returns: "d \<in> set (ls_waiting s) \<Longrightarrow> close_returns (Some d) (ls_w s)
     \<Longrightarrow> lc_step s (s\<lparr>ls_waiting := remove1 d (ls_waiting s)\<rparr>)"
| step_other_allocation: "lc_step s (s\<lparr>ls_w := snd (make_chan (ls_w s))\<rparr>)"
| step_parent_canceled: "p < lw_next (ls_w s) \<Longrightarrow> p \<notin> fst ` set (lw_parents (ls_w s))
     \<Longrightarrow> lc_step s (s\<lparr>ls_w := cancel_ctx (Some p) (ls_w s)\<rparr>)"

inductive_cases lc_stepE: "lc_step s t"

definition lw_new :: lworld where
  "lw_new = \<lparr>lw_next = 1, lw_closed = [], lw_canceled = [], lw_parents = [],
     lw_lc = \<lparr>lc_cancel = None, lc_done = None, lc_ready = None\<rparr>\<rparr>"

definition ls_new :: lsys where
  "ls_new = \<lparr>ls_w = lw_new, ls_runs = [], ls_ending = [], ls_cancels = [], ls_waiting = [], ls_panicked = False\<rparr>"

end
