(* ===== verification/LifecycleProps.thy ===== *)
theory LifecycleProps
  imports Lifecycle
begin

text \<open>
  The invariant of the lifecycle under all interleavings of its calls, and what it promises: one run
  at a time, no panic, no lost wake-up.
\<close>

section \<open>The invariant\<close>

text \<open>The done channels that some call still has to close.\<close>

definition dones :: "lsys \<Rightarrow> chan list" where
  "dones s = (case lc_done (lw_lc (ls_w s)) of None \<Rightarrow> [] | Some d \<Rightarrow> [d]) @ List.map_filter snd (ls_ending s)"

definition owner_ok :: "lsys \<Rightarrow> bool" where
  "owner_ok s \<longleftrightarrow> (case lc_cancel (lw_lc (ls_w s)) of
     None \<Rightarrow> ls_runs s = [] \<and> lc_done (lw_lc (ls_w s)) = None
   | Some c \<Rightarrow> ls_runs s = [c] \<and> lc_done (lw_lc (ls_w s)) \<noteq> None)"

definition chans_ok :: "lsys \<Rightarrow> bool" where
  "chans_ok s \<longleftrightarrow> distinct (dones s)
     \<and> (\<forall>d\<in>set (dones s). d \<notin> set (lw_closed (ls_w s)) \<and> d < lw_next (ls_w s))
     \<and> (\<forall>r. lc_ready (lw_lc (ls_w s)) = Some r \<longrightarrow> r \<notin> set (dones s) \<and> r < lw_next (ls_w s))
     \<and> (\<forall>d\<in>set (lw_closed (ls_w s)). d < lw_next (ls_w s))
     \<and> (\<forall>d\<in>set (ls_waiting s). d \<in> set (lw_closed (ls_w s)) \<or> d \<in> set (dones s))"

definition lc_ok :: "lsys \<Rightarrow> bool" where
  "lc_ok s \<longleftrightarrow> owner_ok s \<and> chans_ok s \<and> \<not> ls_panicked s"

lemmas lifecycle_defs = lc_begin_def WithCancel_def make_chan_def ensure_ready_def markReady_def
  readyChan_def interrupt_lock_def end_lock_def end_finish_def close_lock_def cancel_ctx_def
  close_chan_def finish_step_def close_returns_def

lemma map_filter_remove1:
  assumes "distinct (List.map_filter f xs)" "x \<in> set xs" "f x = Some d"
  shows "distinct (List.map_filter f (remove1 x xs))
    \<and> set (List.map_filter f (remove1 x xs)) = set (List.map_filter f xs) - {d}"
  using assms
proof (induction xs)
  case Nil
  then show ?case by simp
next
  case (Cons y xs)
  show ?case
  proof (cases "y = x")
    case True
    with Cons.prems show ?thesis by (auto simp: List.map_filter_simps)
  next
    case False
    then have mem: "d \<in> set (List.map_filter f xs)"
      using Cons.prems by (force simp: List.map_filter_def)
    with False Cons show ?thesis by (cases "f y") (auto simp: List.map_filter_simps)
  qed
qed

lemma remove1_no_value:
  assumes "f x = None"
  shows "List.map_filter f (remove1 x xs) = List.map_filter f xs"
  using assms by (induction xs) (auto simp: List.map_filter_simps split: option.split)

lemma set_map_filter_iff: "d \<in> set (List.map_filter f xs) \<longleftrightarrow> (\<exists>x\<in>set xs. f x = Some d)"
  by (induction xs) (auto simp: List.map_filter_simps split: option.split)

lemma lc_new_ok: "lc_ok ls_new"
  by (simp add: lc_ok_def owner_ok_def chans_ok_def dones_def ls_new_def lw_new_def List.map_filter_simps)

lemma finish_ok:
  assumes "lc_ok s" "cd \<in> set (ls_ending s)"
  shows "lc_ok (finish_step (end_finish cd (ls_w s)) (s\<lparr>ls_ending := remove1 cd (ls_ending s)\<rparr>))"
proof (cases "snd cd")
  case None
  with assms show ?thesis
    by (cases cd) (auto simp: lc_ok_def owner_ok_def chans_ok_def dones_def end_finish_def finish_step_def
        cancel_ctx_def remove1_no_value split: option.splits)
next
  case (Some d)
  have D: "distinct (dones s)" "d \<in> set (List.map_filter snd (ls_ending s))"
    using assms Some by (auto simp: lc_ok_def chans_ok_def set_map_filter_iff)
  then have M: "distinct (List.map_filter snd (remove1 cd (ls_ending s)))"
    "set (List.map_filter snd (remove1 cd (ls_ending s))) = set (List.map_filter snd (ls_ending s)) - {d}"
    using map_filter_remove1 [of snd "ls_ending s" cd d] assms(2) Some by (auto simp: dones_def)
  have "d \<notin> set (lw_closed (ls_w s))" "d < lw_next (ls_w s)"
    using assms(1) D by (auto simp: lc_ok_def chans_ok_def dones_def)
  moreover have "lc_done (lw_lc (ls_w s)) \<noteq> Some d" using D by (auto simp: dones_def)
  moreover obtain c where cd: "cd = (c, Some d)" using Some by (cases cd) simp
  let ?w = "(cancel_ctx c (ls_w s))\<lparr>lw_closed := d # lw_closed (ls_w s)\<rparr>"
  let ?t = "s\<lparr>ls_ending := remove1 cd (ls_ending s), ls_w := ?w\<rparr>"
  have w: "lw_lc ?w = lw_lc (ls_w s)" "lw_next ?w = lw_next (ls_w s)" "lw_closed ?w = d # lw_closed (ls_w s)"
    by (cases c; simp add: cancel_ctx_def)+
  have fin: "finish_step (end_finish cd (ls_w s)) (s\<lparr>ls_ending := remove1 cd (ls_ending s)\<rparr>) = ?t"
    using calculation(1) by (cases c) (simp_all add: cd end_finish_def cancel_ctx_def close_chan_def finish_step_def Let_def)
  have dt: "distinct (dones ?t)" "set (dones ?t) = set (dones s) - {d}"
    using D M calculation(3) by (auto simp: dones_def w split: option.splits)
  show ?thesis
    unfolding fin
    using assms(1) calculation(2) by (auto simp: lc_ok_def owner_ok_def chans_ok_def dt w split: option.splits)
qed

lemma lc_begin_Inr:
  "lc_begin parent e w = (Inr c, w') \<longleftrightarrow> lc_cancel (lw_lc w) = None \<and> c = lw_next w
     \<and> w' = w\<lparr>lw_next := lw_next w + (if lc_ready (lw_lc w) = None then 3 else 2),
         lw_parents := (lw_next w, parent) # lw_parents w,
         lw_lc := \<lparr>lc_cancel = Some (lw_next w), lc_done = Some (Suc (lw_next w)),
           lc_ready = (case lc_ready (lw_lc w) of None \<Rightarrow> Some (lw_next w + 2) | Some r \<Rightarrow> Some r)\<rparr>\<rparr>"
  by (cases "lc_ready (lw_lc w)")
    (auto simp: lc_begin_def WithCancel_def make_chan_def ensure_ready_def Let_def split: if_splits)

lemma lc_step_ok:
  assumes "lc_step s t" "lc_ok s"
  shows "lc_ok t"
  using assms
proof cases
  case (step_begin parent e c w)
  have none: "lc_cancel (lw_lc (ls_w s)) = None" "lc_done (lw_lc (ls_w s)) = None" "ls_runs s = []"
    using step_begin(3) assms(2) by (auto simp: lc_begin_Inr lc_ok_def owner_ok_def)
  then have "dones t = Suc (lw_next (ls_w s)) # dones s"
    using step_begin by (simp add: dones_def lc_begin_Inr)
  then show ?thesis
    using assms(2) step_begin none
    by (fastforce simp: lc_ok_def owner_ok_def chans_ok_def lc_begin_Inr split: option.splits)
next
  case (step_begin_refused parent e w)
  then have "w = ls_w s" by (auto simp: lc_begin_def split: if_splits prod.splits)
  with step_begin_refused assms(2) show ?thesis by simp
next
  case (step_mark_ready c)
  with assms(2) show ?thesis
    by (auto simp: lc_ok_def owner_ok_def chans_ok_def dones_def lifecycle_defs less_SucI
        split: option.splits if_splits)
next
  case step_ready_chan
  with assms(2) show ?thesis
    by (auto simp: lc_ok_def owner_ok_def chans_ok_def dones_def lifecycle_defs less_SucI
        split: option.splits)
next
  case step_interrupt
  with assms(2) show ?thesis by (simp add: lc_ok_def owner_ok_def chans_ok_def dones_def split: option.splits)
next
  case step_close
  with assms(2) show ?thesis
    by (auto simp: lc_ok_def owner_ok_def chans_ok_def dones_def close_lock_def split: option.splits)
next
  case (step_cancel c)
  with assms(2) show ?thesis
    by (cases c) (simp_all add: lc_ok_def owner_ok_def chans_ok_def dones_def cancel_ctx_def split: option.splits)
next
  case (step_end c cd w)
  with assms(2) show ?thesis
    by (auto simp: lc_ok_def owner_ok_def chans_ok_def dones_def end_lock_def List.map_filter_simps
        split: option.splits)
next
  case (step_end_finish cd)
  with assms(2) show ?thesis by (simp add: finish_ok)
next
  case (step_close_returns d)
  with assms(2) show ?thesis
    by (auto simp: lc_ok_def owner_ok_def chans_ok_def dones_def dest: notin_set_remove1 split: option.splits)
next
  case step_other_allocation
  with assms(2) show ?thesis
    by (auto simp: lc_ok_def owner_ok_def chans_ok_def dones_def make_chan_def less_SucI split: option.splits)
next
  case (step_parent_canceled p)
  with assms(2) show ?thesis
    by (simp add: lc_ok_def owner_ok_def chans_ok_def dones_def cancel_ctx_def split: option.splits)
qed

interpretation lc: invariant_machine "\<lambda>s. s = ls_new" lc_step lc_ok
  by unfold_locales (auto simp: lc_new_ok lc_step_ok)

section \<open>Contexts and readiness\<close>

text \<open>Every context in use was allocated, and the ready channel is open while no run is active.\<close>

definition ids_ok :: "lsys \<Rightarrow> bool" where
  "ids_ok s \<longleftrightarrow> (\<forall>c\<in>set (lw_canceled (ls_w s)). c < lw_next (ls_w s))
     \<and> (\<forall>c. Some c \<in> set (ls_cancels s) \<longrightarrow> c < lw_next (ls_w s))
     \<and> (\<forall>c d. (Some c, d) \<in> set (ls_ending s) \<longrightarrow> c < lw_next (ls_w s))
     \<and> (\<forall>(c, p)\<in>set (lw_parents (ls_w s)). c < lw_next (ls_w s) \<and> p < c)
     \<and> (\<forall>c. lc_cancel (lw_lc (ls_w s)) = Some c \<longrightarrow> c < lw_next (ls_w s))
     \<and> (\<forall>r. ls_runs s = [] \<longrightarrow> lc_ready (lw_lc (ls_w s)) = Some r \<longrightarrow> r \<notin> set (lw_closed (ls_w s)))"

lemma finish_step_simps [simp]:
  "finish_step None s = s\<lparr>ls_panicked := True\<rparr>" "finish_step (Some w) s = s\<lparr>ls_w := w\<rparr>"
  by (simp_all add: finish_step_def)

lemma finish_ids:
  assumes "lc_ok s" "ids_ok s" "(c, d) \<in> set (ls_ending s)"
  shows "ids_ok (finish_step (end_finish (c, d) (ls_w s)) (s\<lparr>ls_ending := remove1 (c, d) (ls_ending s)\<rparr>))"
proof -
  have c: "x < lw_next (ls_w s)" if "c = Some x" for x using assms(2,3) that by (auto simp: ids_ok_def)
  have r: "lc_ready (lw_lc (ls_w s)) \<noteq> Some e" if "d = Some e" for e
    using assms(1,3) that by (force simp: lc_ok_def chans_ok_def dones_def set_map_filter_iff)
  have sub: "x < lw_next (ls_w s)" if "(Some x, e) \<in> set (remove1 (c, d) (ls_ending s))" for x e
    using assms(2) notin_set_remove1 [of "(Some x, e)" "ls_ending s" "(c, d)"] that by (auto simp: ids_ok_def)
  show ?thesis
    using assms(2) c r sub
    by (cases c; cases d) (auto simp: ids_ok_def end_finish_def cancel_ctx_def close_chan_def Let_def)
qed

lemma ids_begin:
  assumes "lc_ok s" "ids_ok s" "parent < lw_next (ls_w s)" "lc_begin parent e (ls_w s) = (Inr c, w)"
  shows "ids_ok (s\<lparr>ls_w := w, ls_runs := c # ls_runs s\<rparr>)"
  using assms by (fastforce simp: ids_ok_def lc_begin_Inr less_SucI)

text \<open>Calls that only allocate, set the ready channel or close a channel while a run is active.\<close>

lemma ids_ok_grow:
  assumes "ids_ok s" "lw_next (ls_w s) \<le> lw_next w" "lw_canceled w = lw_canceled (ls_w s)"
    "lw_parents w = lw_parents (ls_w s)" "lc_cancel (lw_lc w) = lc_cancel (lw_lc (ls_w s))"
    "\<And>r. ls_runs s = [] \<Longrightarrow> lc_ready (lw_lc w) = Some r \<Longrightarrow> r \<notin> set (lw_closed w)"
  shows "ids_ok (s\<lparr>ls_w := w\<rparr>)"
  using assms by (fastforce simp: ids_ok_def)

lemma ensure_ready_eqs:
  "lw_next w \<le> lw_next (snd (ensure_ready w))" "lw_canceled (snd (ensure_ready w)) = lw_canceled w"
  "lw_parents (snd (ensure_ready w)) = lw_parents w" "lw_closed (snd (ensure_ready w)) = lw_closed w"
  "lc_cancel (lw_lc (snd (ensure_ready w))) = lc_cancel (lw_lc w)"
  "lc_done (lw_lc (snd (ensure_ready w))) = lc_done (lw_lc w)"
  "lc_ready (lw_lc (snd (ensure_ready w))) = Some (fst (ensure_ready w))"
  "fst (ensure_ready w) = (case lc_ready (lw_lc w) of None \<Rightarrow> lw_next w | Some r \<Rightarrow> r)"
  by (simp_all add: ensure_ready_def make_chan_def split: option.split)

lemma markReady_eq:
  "markReady w = Some (let w1 = snd (ensure_ready w); r = fst (ensure_ready w)
     in if r \<in> set (lw_closed w1) then w1 else w1\<lparr>lw_closed := r # lw_closed w1\<rparr>)"
  by (simp add: markReady_def close_chan_def Let_def split: prod.split)

lemma ids_mark:
  assumes "ids_ok s" "c \<in> set (ls_runs s)"
  shows "ids_ok (finish_step (markReady (ls_w s)) s)"
  unfolding markReady_eq finish_step_simps
  by (rule ids_ok_grow) (use assms in \<open>auto simp: Let_def ensure_ready_eqs\<close>)

lemma ids_step:
  assumes "lc_step s t" "lc_ok s" "ids_ok s"
  shows "ids_ok t"
  using assms(1)
proof cases
  case (step_begin_refused parent e w)
  then have "w = ls_w s" by (auto simp: lc_begin_def split: if_splits prod.splits)
  with step_begin_refused assms(3) show ?thesis by simp
next
  case step_ready_chan
  have "ids_ok (s\<lparr>ls_w := snd (readyChan (ls_w s))\<rparr>)"
    using assms(2,3) by (intro ids_ok_grow)
      (auto simp: readyChan_def ensure_ready_eqs ids_ok_def lc_ok_def chans_ok_def split: option.splits)
  with step_ready_chan show ?thesis by simp
next
  case (step_cancel c)
  have "x \<in> set (ls_cancels s)" if "x \<in> set (remove1 c (ls_cancels s))" for x
    using that by (meson notin_set_remove1)
  with step_cancel assms(3) show ?thesis by (cases c) (auto simp: ids_ok_def cancel_ctx_def)
next
  case (step_end_finish cd)
  with assms(2,3) show ?thesis by (cases cd) (simp add: finish_ids)
next
  case step_other_allocation
  with assms(3) show ?thesis by (fastforce simp: ids_ok_def make_chan_def)
next
  case (step_begin parent e c w)
  with assms(2,3) show ?thesis using ids_begin by simp
next
  case (step_mark_ready c)
  with assms(3) show ?thesis using ids_mark by simp
next
  case step_interrupt
  with assms(3) show ?thesis by (auto simp: ids_ok_def interrupt_lock_def)
next
  case step_close
  with assms(3) show ?thesis by (auto simp: ids_ok_def close_lock_def)
next
  case (step_end c cd w)
  with assms(3) show ?thesis by (auto simp: ids_ok_def end_lock_def)
next
  case (step_close_returns d)
  with assms(3) show ?thesis by (simp add: ids_ok_def)
next
  case (step_parent_canceled p)
  with assms(3) show ?thesis by (simp add: ids_ok_def cancel_ctx_def)
qed

interpretation lc_ids: invariant_machine "\<lambda>s. s = ls_new" lc_step "\<lambda>s. lc_ok s \<and> ids_ok s"
proof
  show "lc_ok s \<and> ids_ok s" if "s = ls_new" for s
    using that lc_new_ok by (simp add: ids_ok_def ls_new_def lw_new_def)
  show "lc_ok t \<and> ids_ok t" if "lc_ok s \<and> ids_ok s" "lc_step s t" for s t
    using that lc_step_ok ids_step by blast
qed

lemma ctx_done_fresh:
  assumes "\<forall>x\<in>set canceled. x < c" "\<forall>(x, p)\<in>set ps. x < c"
  shows "\<not> ctx_done canceled ps c"
  using assms by (induction ps) auto

section \<open>Properties\<close>

text \<open>
  C16. Under every interleaving of begin, markReady, readyChan, interrupt, close and end calls, a
  lifecycle never closes a closed channel, at most one run is active, a \<open>begin\<close> is refused exactly
  while one is, and a closer is never forgotten: each channel a \<open>close\<close> call waits for is closed
  already, or the active run or an \<open>end\<close> in progress will close it.
\<close>

theorem lifecycle_exclusive:
  assumes "lc_step\<^sup>*\<^sup>* ls_new s"
  shows "\<not> ls_panicked s \<and> length (ls_runs s) \<le> 1
    \<and> (\<exists>c. fst (lc_begin parent e (ls_w s)) = Inl c) = (ls_runs s \<noteq> [])
    \<and> (\<forall>d\<in>set (ls_waiting s). close_returns (Some d) (ls_w s)
        \<or> lc_done (lw_lc (ls_w s)) = Some d \<and> ls_runs s \<noteq> []
        \<or> (\<exists>c. (c, Some d) \<in> set (ls_ending s)))"
proof -
  have ok: "owner_ok s" "chans_ok s" "\<not> ls_panicked s"
    using lc.reachable_inv [OF refl assms] by (simp_all add: lc_ok_def)
  have "length (ls_runs s) \<le> 1" "(\<exists>c. fst (lc_begin parent e (ls_w s)) = Inl c) = (ls_runs s \<noteq> [])"
    using ok(1) by (auto simp: owner_ok_def lc_begin_def split: option.splits prod.splits)
  moreover have "close_returns (Some d) (ls_w s) \<or> lc_done (lw_lc (ls_w s)) = Some d \<and> ls_runs s \<noteq> []
        \<or> (\<exists>c. (c, Some d) \<in> set (ls_ending s))" if "d \<in> set (ls_waiting s)" for d
  proof -
    have "d \<in> set (lw_closed (ls_w s)) \<or> d \<in> set (dones s)" using ok(2) that by (simp add: chans_ok_def)
    with ok(1) show ?thesis
      by (auto simp: dones_def set_map_filter_iff close_returns_def owner_ok_def split: option.splits)
  qed
  ultimately show ?thesis using ok(3) by blast
qed

text \<open>A run that is closed while it is active.\<close>

definition ls_closing :: lsys where
  "ls_closing = (let s1 = ls_new\<lparr>ls_w := snd (lc_begin 0 ErrGatewayAlreadyConnected lw_new), ls_runs := [1]\<rparr>
     in s1\<lparr>ls_cancels := [fst (close_lock (ls_w s1))], ls_waiting := [2]\<rparr>)"

lemma ls_closing_reachable: "lc_step\<^sup>*\<^sup>* ls_new ls_closing"
proof -
  let ?w = "snd (lc_begin 0 ErrGatewayAlreadyConnected lw_new)"
  let ?s1 = "ls_new\<lparr>ls_w := ?w, ls_runs := [1]\<rparr>"
  have "lc_begin 0 ErrGatewayAlreadyConnected (ls_w ls_new) = (Inr 1, ?w)" by code_simp
  moreover have "0 < lw_next (ls_w ls_new)" "ls_runs ls_new = []" by code_simp+
  ultimately have "lc_step ls_new ?s1" by (metis step_begin)
  moreover have "lc_step ?s1 ls_closing"
  proof -
    have "close_lock ?w = (Some 1, Some 2)" by code_simp
    with step_close [of ?s1] show ?thesis by (simp add: ls_closing_def ls_new_def Let_def)
  qed
  ultimately show ?thesis by auto
qed

theorem lifecycle_exclusive_witness:
  "ls_waiting ls_closing = [2] \<and> (close_returns (Some 2) (ls_w ls_closing)
    \<or> lc_done (lw_lc (ls_w ls_closing)) = Some 2 \<and> ls_runs ls_closing \<noteq> []
    \<or> (\<exists>c. (c, Some 2) \<in> set (ls_ending ls_closing)))"
proof -
  have "ls_waiting ls_closing = [2]" by code_simp
  with lifecycle_exclusive [OF ls_closing_reachable] show ?thesis by simp
qed

text \<open>
  A run starts with a clean context: the context of a fresh run is done only if the caller's own
  context is, and no \<open>interrupt\<close>, \<open>close\<close> or \<open>end\<close> of an earlier run that has yet to call the cancel
  function it took can cancel it. A \<open>close\<close> made during the run does cancel it.
\<close>

lemma begin_clean_context:
  assumes "lc_step\<^sup>*\<^sup>* ls_new s" and "parent < lw_next (ls_w s)"
    and "lc_begin parent e (ls_w s) = (Inr c, w)"
  shows "ctx_done (lw_canceled w) (lw_parents w) c = ctx_done (lw_canceled (ls_w s)) (lw_parents (ls_w s)) parent
    \<and> Some c \<notin> set (ls_cancels s) \<and> (\<forall>cd\<in>set (ls_ending s). fst cd \<noteq> Some c)
    \<and> fst (close_lock w) = Some c
    \<and> ctx_done (lw_canceled (cancel_ctx (Some c) w)) (lw_parents w) c"
proof -
  have ids: "ids_ok s" using lc_ids.reachable_inv [OF refl assms(1)] by simp
  have c: "c = lw_next (ls_w s)" using assms(3) by (simp add: lc_begin_Inr)
  have "c \<notin> set (lw_canceled (ls_w s))" "Some c \<notin> set (ls_cancels s)"
    "\<forall>cd\<in>set (ls_ending s). fst cd \<noteq> Some c"
    using ids by (fastforce simp: c ids_ok_def)+
  moreover have "ctx_done (c # cs) ps c" for cs ps by (cases ps) auto
  ultimately show ?thesis
    using assms(3) by (auto simp: lc_begin_Inr close_lock_def cancel_ctx_def)
qed

lemma begin_clean_context_witness:
  "\<not> ctx_done (lw_canceled (snd (lc_begin 0 ErrGatewayAlreadyConnected lw_new)))
      (lw_parents (snd (lc_begin 0 ErrGatewayAlreadyConnected lw_new))) 1"
proof -
  have "lc_begin 0 ErrGatewayAlreadyConnected (ls_w ls_new) =
      (Inr 1, snd (lc_begin 0 ErrGatewayAlreadyConnected lw_new))" by code_simp
  moreover have "(0::nat) < lw_next (ls_w ls_new)" by code_simp
  ultimately have "ctx_done (lw_canceled (snd (lc_begin 0 ErrGatewayAlreadyConnected lw_new)))
      (lw_parents (snd (lc_begin 0 ErrGatewayAlreadyConnected lw_new))) 1 =
      ctx_done (lw_canceled (ls_w ls_new)) (lw_parents (ls_w ls_new)) 0"
    using begin_clean_context [OF rtranclp.rtrancl_refl] by blast
  then show ?thesis by (simp add: ls_new_def lw_new_def)
qed

inductive lc_step_same_run :: "lsys \<Rightarrow> lsys \<Rightarrow> bool" where
  same_run: "lc_step s t \<Longrightarrow> \<not> (ls_runs s \<noteq> [] \<and> ls_runs t = []) \<Longrightarrow> lc_step_same_run s t"

lemma ready_kept:
  assumes "lc_step_same_run s t" "lc_ok s" "lc_ready (lw_lc (ls_w s)) = Some r"
  shows "lc_ready (lw_lc (ls_w t)) = Some r \<and> lc_ok t"
proof -
  have step: "lc_step s t" and keep: "\<not> (ls_runs s \<noteq> [] \<and> ls_runs t = [])"
    using assms(1) by (cases, simp)+
  from step have "lc_ready (lw_lc (ls_w t)) = Some r"
  proof cases
    case (step_begin parent e c w)
    with assms(3) show ?thesis by (simp add: lc_begin_Inr)
  next
    case (step_begin_refused parent e w)
    then have "w = ls_w s" by (auto simp: lc_begin_def split: if_splits prod.splits)
    with step_begin_refused assms(3) show ?thesis by simp
  next
    case (step_end c cd w)
    with assms(2) keep show ?thesis by (auto simp: lc_ok_def owner_ok_def split: option.splits)
  next
    case (step_end_finish cd)
    then show ?thesis using assms(3)
      by (cases cd; cases "fst cd"; cases "snd cd") (auto simp: end_finish_def cancel_ctx_def close_chan_def Let_def)
  next
    case (step_cancel c)
    then show ?thesis using assms(3) by (cases c) (simp_all add: cancel_ctx_def)
  qed (use assms(3) in \<open>auto simp: markReady_eq ensure_ready_eqs readyChan_def cancel_ctx_def make_chan_def Let_def\<close>)
  with step assms(2) show ?thesis using lc_step_ok by blast
qed

text \<open>
  C17. Waiting for readiness before the run starts works: a channel handed out while no run is active
  is open, and as long as no run ends it stays the ready channel, whatever else happens; so the
  \<open>markReady\<close> of the run that starts next closes exactly this channel, without a panic.
\<close>

theorem ready_channel_signalled:
  assumes "lc_step\<^sup>*\<^sup>* ls_new s" and "ls_runs s = []" and "readyChan (ls_w s) = (r, w)"
    and "lc_step_same_run\<^sup>*\<^sup>* (s\<lparr>ls_w := w\<rparr>) t" and "ls_runs t \<noteq> []"
  shows "r \<notin> set (lw_closed w) \<and> fst (readyChan (ls_w t)) = r
    \<and> (\<exists>w'. markReady (ls_w t) = Some w' \<and> r \<in> set (lw_closed w'))"
proof -
  let ?s = "s\<lparr>ls_w := w\<rparr>"
  have reach: "lc_step\<^sup>*\<^sup>* ls_new ?s"
    using assms(1) step_ready_chan [of s] assms(3) by (simp add: rtranclp.rtrancl_into_rtrancl)
  then have ok: "lc_ok ?s" "ids_ok ?s" using lc_ids.reachable_inv by blast+
  have r: "lc_ready (lw_lc w) = Some r"
    using assms(3) by (auto simp: readyChan_def ensure_ready_def make_chan_def split: option.splits)
  have "lc_ready (lw_lc (ls_w t)) = Some r \<and> lc_ok t"
    using assms(4)
  proof (induction rule: rtranclp_induct)
    case base
    with ok r show ?case by simp
  next
    case (step y z)
    then show ?case using ready_kept by blast
  qed
  moreover have "r \<notin> set (lw_closed w)" using ok(2) r assms(2) by (auto simp: ids_ok_def)
  ultimately show ?thesis
    by (simp add: readyChan_def ensure_ready_def markReady_def close_chan_def)
qed

theorem ready_channel_signalled_witness:
  "let (r, w) = readyChan lw_new; w2 = snd (lc_begin 0 ErrGatewayAlreadyConnected w)
   in \<exists>w'. markReady w2 = Some w' \<and> r \<in> set (lw_closed w')"
proof -
  let ?w = "snd (readyChan lw_new)" and ?s = "ls_new\<lparr>ls_w := snd (readyChan lw_new)\<rparr>"
  let ?w2 = "snd (lc_begin 0 ErrGatewayAlreadyConnected ?w)"
  let ?t = "?s\<lparr>ls_w := ?w2, ls_runs := [2]\<rparr>"
  have "readyChan (ls_w ls_new) = (1, ?w)" "lc_begin 0 ErrGatewayAlreadyConnected (ls_w ?s) = (Inr 2, ?w2)"
    "0 < lw_next (ls_w ?s)" "ls_runs ls_new = []" "ls_runs ?s = []" by code_simp+
  note facts = this
  have "lc_step ?s ?t" using step_begin [OF facts(3,2)] facts(5) by simp
  then have "lc_step_same_run\<^sup>*\<^sup>* ?s ?t" using facts(5) by (auto intro!: r_into_rtranclp same_run)
  from ready_channel_signalled [OF rtranclp.rtrancl_refl facts(4,1) this] facts(1)
  show ?thesis by (auto simp: ls_new_def)
qed

end
