(* ===== verification/Connection.thy ===== *)
theory Connection
  imports Wire Machines
begin

text \<open>
  One client socket as a service sees it, \<open>connection.go\<close>: a bounded mailbox between the transport
  and the router, closed once. The calls of \<open>HandleMessage\<close> and \<open>Read\<close> that are in progress at the
  same time are composed in a step relation at the end.
\<close>

section \<open>State\<close>

text \<open>
  \<open>conn_mailbox\<close> is the content of \<open>messageChan\<close>, \<open>conn_once\<close> tells whether \<open>closeOnce\<close> has run, and
  \<open>conn_canceled\<close> whether the connection's context is canceled. The callback \<open>onClosed\<close> and the
  transport belong to the caller: \<open>HandleClose\<close> reports whether it called \<open>onClosed\<close>.
\<close>

record 'v Connection =
  conn_gatewayID :: string
  conn_socketID :: string
  conn_headers :: "(string, string list) gomap"
  conn_remoteAttr :: string
  conn_capacity :: nat
  conn_mailbox :: "'v SocketMessage list"
  conn_once :: bool
  conn_closeStatus :: "Status option"
  conn_closeReason :: string
  conn_canceled :: bool

definition NewConnection :: "string \<Rightarrow> string \<Rightarrow> ConnectionInfo \<Rightarrow> int \<Rightarrow> 'v Connection" where
  "NewConnection gatewayID socketID info mailboxSize =
     (let mailboxSize = (if mailboxSize < 0 then 0 else mailboxSize)
      in \<lparr>conn_gatewayID = gatewayID, conn_socketID = socketID, conn_headers = ci_Headers info,
          conn_remoteAttr = ci_RemoteAddr info, conn_capacity = nat mailboxSize, conn_mailbox = [],
          conn_once = False, conn_closeStatus = None, conn_closeReason = '''', conn_canceled = False\<rparr>)"

definition GatewayID :: "'v Connection \<Rightarrow> string" where
  "GatewayID c = conn_gatewayID c"

section \<open>Messages\<close>

text \<open>
  A send on \<open>messageChan\<close> can go ahead when the buffer has room or one of the \<open>readers\<close> calls of
  \<open>Read\<close> in progress is not served yet. \<open>None\<close> is the result of a call that has to wait. When both
  cases of the \<open>select\<close> are ready Go takes either; \<open>pick\<close> is its choice.
\<close>

definition can_send :: "nat \<Rightarrow> 'v Connection \<Rightarrow> bool" where
  "can_send readers c \<longleftrightarrow> length (conn_mailbox c) < conn_capacity c + readers"

definition HandleMessage :: "nat \<Rightarrow> bool \<Rightarrow> 'v SocketMessage \<Rightarrow> 'v Connection \<Rightarrow> 'v Connection option" where
  "HandleMessage readers pick msg c =
     (if can_send readers c \<and> (pick \<or> \<not> conn_canceled c)
      then Some (c\<lparr>conn_mailbox := conn_mailbox c @ [msg]\<rparr>)
      else if conn_canceled c then Some c else None)"

text \<open>The ready cases of the \<open>select\<close> in \<open>Read\<close>; \<open>readErr\<close> is the error of a finished \<open>readCtx\<close>.\<close>

definition read_cases :: "go_error option \<Rightarrow> 'v Connection
    \<Rightarrow> ((go_error + 'v SocketMessage) \<times> 'v Connection) list" where
  "read_cases readErr c =
     (if conn_canceled c then [(Inl (ErrOther ''context canceled''), c)] else [])
     @ (case readErr of None \<Rightarrow> [] | Some e \<Rightarrow> [(Inl e, c)])
     @ (case conn_mailbox c of [] \<Rightarrow> [] | msg # rest \<Rightarrow> [(Inr msg, c\<lparr>conn_mailbox := rest\<rparr>)])"

definition Read :: "nat \<Rightarrow> go_error option \<Rightarrow> 'v Connection
    \<Rightarrow> ((go_error + 'v SocketMessage) \<times> 'v Connection) option" where
  "Read pick readErr c = (let ready = read_cases readErr c
     in if ready = [] then None else Some (ready ! (pick mod length ready)))"

section \<open>Closing and writing\<close>

definition conn_HandleClose :: "Status \<Rightarrow> string \<Rightarrow> 'v Connection \<Rightarrow> bool \<times> 'v Connection" where
  "conn_HandleClose status reason c =
     (if conn_once c then (False, c)
      else (True, c\<lparr>conn_once := True, conn_closeStatus := Some status, conn_closeReason := reason,
                   conn_canceled := True\<rparr>))"

text \<open>\<open>send gatewayID socketID msg\<close> is the error of the transport's \<open>MessageGateway\<close>.\<close>

definition Write :: "(string \<Rightarrow> string \<Rightarrow> 'v SocketMessage \<Rightarrow> go_error option) \<Rightarrow> 'v SocketMessage
    \<Rightarrow> 'v Connection \<Rightarrow> go_error option \<times> bool \<times> 'v Connection" where
  "Write send msg c =
     (let err = send (conn_gatewayID c) (conn_socketID c) msg
      in if err \<noteq> None
         then (err, conn_HandleClose StatusInternalError ''Failed to write message to gateway'' c)
         else (err, False, c))"

definition conn_Close :: "(string \<Rightarrow> Status \<Rightarrow> string \<Rightarrow> 'a) \<Rightarrow> Status \<Rightarrow> string \<Rightarrow> 'v Connection \<Rightarrow> 'a" where
  "conn_Close closedSocket status reason c = closedSocket (conn_socketID c) status reason"

section \<open>Concurrent calls\<close>

text \<open>
  \<open>cs_pending\<close> are the messages of \<open>HandleMessage\<close> calls in progress, \<open>cs_readers\<close> the number of
  \<open>Read\<close> calls in progress, \<open>cs_closed\<close> how often \<open>onClosed\<close> was called. \<open>cs_called\<close>, \<open>cs_accepted\<close>
  and \<open>cs_delivered\<close> record the messages passed to \<open>HandleMessage\<close>, sent on the channel, and returned
  by \<open>Read\<close>. A reader to which the channel has handed a message does not return with an error.
\<close>

record 'v csys =
  cs_conn :: "'v Connection"
  cs_pending :: "'v SocketMessage list"
  cs_readers :: nat
  cs_closed :: nat
  cs_called :: "'v SocketMessage list"
  cs_accepted :: "'v SocketMessage list"
  cs_delivered :: "'v SocketMessage list"

inductive conn_step :: "'v csys \<Rightarrow> 'v csys \<Rightarrow> bool" where
  cs_handle: "conn_step s (s\<lparr>cs_pending := cs_pending s @ [msg], cs_called := cs_called s @ [msg]\<rparr>)"
| cs_handled: "msg \<in> set (cs_pending s) \<Longrightarrow> HandleMessage (cs_readers s) pick msg (cs_conn s) = Some c
     \<Longrightarrow> conn_step s (s\<lparr>cs_conn := c, cs_pending := remove1 msg (cs_pending s),
          cs_accepted := cs_accepted s @ drop (length (conn_mailbox (cs_conn s))) (conn_mailbox c)\<rparr>)"
| cs_read: "conn_step s (s\<lparr>cs_readers := Suc (cs_readers s)\<rparr>)"
| cs_read_message: "0 < cs_readers s \<Longrightarrow> Read pick readErr (cs_conn s) = Some (Inr msg, c)
     \<Longrightarrow> conn_step s (s\<lparr>cs_conn := c, cs_readers := cs_readers s - 1, cs_delivered := cs_delivered s @ [msg]\<rparr>)"
| cs_read_error: "0 < cs_readers s \<Longrightarrow> length (conn_mailbox (cs_conn s)) < conn_capacity (cs_conn s) + cs_readers s
     \<Longrightarrow> Read pick readErr (cs_conn s) = Some (Inl e, c)
     \<Longrightarrow> conn_step s (s\<lparr>cs_conn := c, cs_readers := cs_readers s - 1\<rparr>)"
| cs_close: "conn_HandleClose status reason (cs_conn s) = (called, c)
     \<Longrightarrow> conn_step s (s\<lparr>cs_conn := c, cs_closed := cs_closed s + (if called then 1 else 0)\<rparr>)"

inductive_cases conn_stepE: "conn_step s t"

definition cs_new :: "'v Connection \<Rightarrow> 'v csys" where
  "cs_new c = \<lparr>cs_conn = c, cs_pending = [], cs_readers = 0, cs_closed = 0, cs_called = [],
     cs_accepted = [], cs_delivered = []\<rparr>"

section \<open>The invariant\<close>

definition conn_ok :: "'v csys \<Rightarrow> bool" where
  "conn_ok s \<longleftrightarrow> cs_accepted s = cs_delivered s @ conn_mailbox (cs_conn s)
     \<and> length (conn_mailbox (cs_conn s)) \<le> conn_capacity (cs_conn s) + cs_readers s
     \<and> cs_closed s = (if conn_once (cs_conn s) then 1 else 0)
     \<and> conn_canceled (cs_conn s) = conn_once (cs_conn s)
     \<and> (\<not> conn_canceled (cs_conn s) \<longrightarrow> mset (cs_called s) = mset (cs_accepted s) + mset (cs_pending s))"

lemma Read_mem: "Read pick readErr c = Some x \<Longrightarrow> x \<in> set (read_cases readErr c)"
  by (auto simp: Read_def Let_def split: if_splits)

lemma Read_Inr:
  assumes "Read pick readErr c = Some (Inr msg, c')"
  shows "\<exists>rest. conn_mailbox c = msg # rest \<and> c' = c\<lparr>conn_mailbox := rest\<rparr>"
  using Read_mem [OF assms] by (cases "conn_mailbox c") (auto simp: read_cases_def split: if_splits option.splits)

lemma Read_Inl: "Read pick readErr c = Some (Inl e, c') \<Longrightarrow> c' = c"
  using Read_mem [of pick readErr c "(Inl e, c')"]
  by (auto simp: read_cases_def split: if_splits option.splits list.splits)

lemma HandleMessage_Some:
  assumes "HandleMessage readers pick msg c = Some c'"
  obtains (sent) "can_send readers c" "c' = c\<lparr>conn_mailbox := conn_mailbox c @ [msg]\<rparr>"
  | (dropped) "conn_canceled c" "c' = c"
  using assms unfolding HandleMessage_def by (metis option.distinct(1) option.inject)

lemma conn_step_ok:
  assumes "conn_step s t" "conn_ok s"
  shows "conn_ok t"
  using assms(1)
proof cases
  case (cs_handled msg pick c)
  have pend: "mset (cs_pending s) = add_mset msg (mset (remove1 msg (cs_pending s)))"
    using cs_handled(2) by (metis insert_DiffM mset_remove1 set_mset_mset)
  have split: "mset (cs_called s) = mset (cs_accepted s) + mset (cs_pending s) \<Longrightarrow>
      mset (cs_called s) = add_mset msg (mset (cs_accepted s) + mset (remove1 msg (cs_pending s)))"
    by (subst (asm) pend) simp
  from cs_handled(3) show ?thesis
  proof (cases rule: HandleMessage_Some)
    case sent
    then have len: "Suc (length (conn_mailbox (cs_conn s))) \<le> conn_capacity (cs_conn s) + cs_readers s"
      by (simp add: can_send_def)
    show ?thesis
      unfolding cs_handled(1) conn_ok_def sent(2)
      using assms(2) split len by (simp add: conn_ok_def del: mset_remove1)
  next
    case dropped
    with assms(2) show ?thesis by (simp add: conn_ok_def cs_handled(1))
  qed
next
  case (cs_read_message pick readErr msg c)
  from Read_Inr [OF cs_read_message(3)] obtain rest where
    "conn_mailbox (cs_conn s) = msg # rest" "c = (cs_conn s)\<lparr>conn_mailbox := rest\<rparr>" by blast
  with assms(2) cs_read_message show ?thesis by (auto simp: conn_ok_def)
next
  case (cs_read_error pick readErr e c)
  with assms(2) show ?thesis using Read_Inl [OF cs_read_error(4)] by (auto simp: conn_ok_def)
next
  case (cs_close status reason called c)
  with assms(2) show ?thesis by (auto simp: conn_ok_def conn_HandleClose_def split: if_splits)
qed (use assms(2) in \<open>auto simp: conn_ok_def\<close>)

interpretation conn: invariant_machine "\<lambda>s. \<exists>gatewayID socketID info mailboxSize.
    s = cs_new (NewConnection gatewayID socketID info mailboxSize)" conn_step conn_ok
proof
  show "conn_ok s" if "\<exists>gatewayID socketID info mailboxSize. s = cs_new (NewConnection gatewayID socketID info mailboxSize)"
    for s :: "'a csys"
    using that by (auto simp: conn_ok_def cs_new_def NewConnection_def Let_def)
  show "conn_ok t" if "conn_ok s" "conn_step s t" for s t :: "'a csys"
    using that conn_step_ok by blast
qed

section \<open>Properties\<close>

definition sample_msg :: "nat \<Rightarrow> nat SocketMessage" where
  "sample_msg k = \<lparr>sm_Type = 1, sm_RawData = [], sm_Data = [of_nat k], sm_Meta = []\<rparr>"

text \<open>
  The contract of \<open>Transport\<close>: calls of the message handler for one socket are serialized, so a
  \<open>HandleMessage\<close> starts only when no other is in progress.
\<close>

inductive conn_serial :: "'v csys \<Rightarrow> 'v csys \<Rightarrow> bool" where
  conn_serial: "conn_step s t \<Longrightarrow> cs_called t = cs_called s \<or> cs_pending s = [] \<Longrightarrow> conn_serial s t"

definition conn_order :: "'v csys \<Rightarrow> bool" where
  "conn_order s \<longleftrightarrow> conn_ok s \<and> length (cs_pending s) \<le> 1
     \<and> (\<not> conn_canceled (cs_conn s) \<longrightarrow> cs_called s = cs_accepted s @ cs_pending s)"

lemma conn_serial_order:
  assumes "conn_serial s t" "conn_order s"
  shows "conn_order t"
proof -
  have step: "conn_step s t" and serial: "cs_called t = cs_called s \<or> cs_pending s = []"
    using assms(1) by (cases, simp)+
  have ok: "conn_ok t" using conn_step_ok [OF step] assms(2) by (simp add: conn_order_def)
  from step show ?thesis
  proof cases
    case (cs_handled msg pick c)
    from assms(2) cs_handled(2) have pend: "cs_pending s = [msg]"
      by (cases "cs_pending s") (auto simp: conn_order_def)
    from cs_handled(3) show ?thesis
      by (cases rule: HandleMessage_Some)
        (use assms(2) ok pend cs_handled(1) in \<open>simp_all add: conn_order_def\<close>)
  next
    case (cs_read_message pick readErr msg c)
    from Read_Inr [OF cs_read_message(3)] obtain rest where "c = (cs_conn s)\<lparr>conn_mailbox := rest\<rparr>" by blast
    with assms(2) ok cs_read_message(1) show ?thesis by (simp add: conn_order_def)
  next
    case (cs_read_error pick readErr e c)
    with assms(2) ok Read_Inl [OF cs_read_error(4)] show ?thesis by (simp add: conn_order_def)
  next
    case (cs_close status reason called c)
    with assms(2) ok show ?thesis by (auto simp: conn_order_def conn_HandleClose_def split: if_splits)
  qed (use assms(2) ok serial in \<open>auto simp: conn_order_def\<close>)
qed

interpretation conn_serial: invariant_machine "\<lambda>s. \<exists>gatewayID socketID info mailboxSize.
    s = cs_new (NewConnection gatewayID socketID info mailboxSize)" conn_serial conn_order
proof
  show "conn_order s" if "\<exists>gatewayID socketID info mailboxSize. s = cs_new (NewConnection gatewayID socketID info mailboxSize)"
    for s :: "'a csys"
    using that conn.init_inv [OF that] by (auto simp: conn_order_def cs_new_def)
  show "conn_order t" if "conn_order s" "conn_serial s t" for s t :: "'a csys"
    using that conn_serial_order by blast
qed

text \<open>
  C18. Messages reach the router in order, each once, with bounded memory: at every moment of a run in
  which the transport keeps its contract, the messages passed to \<open>HandleMessage\<close> while the connection
  is open are those \<open>Read\<close> returned, followed by the mailbox, followed by the one call still waiting;
  the mailbox never holds more than the buffer size plus the waiting readers; and \<open>onClosed\<close> is
  called exactly once when the connection is closed and never before.
\<close>

theorem connection_fifo:
  assumes "conn_serial\<^sup>*\<^sup>* (cs_new (NewConnection gatewayID socketID info mailboxSize)) s"
  shows "(\<not> conn_canceled (cs_conn s) \<longrightarrow>
        cs_called s = cs_delivered s @ conn_mailbox (cs_conn s) @ cs_pending s \<and> length (cs_pending s) \<le> 1)
    \<and> cs_accepted s = cs_delivered s @ conn_mailbox (cs_conn s)
    \<and> length (conn_mailbox (cs_conn s)) \<le> conn_capacity (cs_conn s) + cs_readers s
    \<and> cs_closed s = (if conn_canceled (cs_conn s) then 1 else 0)"
proof -
  have "conn_order s" by (rule conn_serial.reachable_inv [OF _ assms]) blast
  then show ?thesis by (auto simp: conn_order_def conn_ok_def)
qed

theorem connection_fifo_witness:
  "\<exists>s. conn_serial\<^sup>*\<^sup>* (cs_new (NewConnection ''G'' ''s1'' \<lparr>ci_Headers = [], ci_RemoteAddr = ''''\<rparr> 64)) s
    \<and> cs_accepted s = [sample_msg 1] \<and> cs_accepted s = cs_delivered s @ conn_mailbox (cs_conn s)"
proof -
  let ?c = "NewConnection ''G'' ''s1'' \<lparr>ci_Headers = [], ci_RemoteAddr = ''''\<rparr> 64 :: nat Connection"
  let ?s1 = "(cs_new ?c)\<lparr>cs_pending := [sample_msg 1], cs_called := [sample_msg 1]\<rparr>"
  let ?c2 = "?c\<lparr>conn_mailbox := [sample_msg 1]\<rparr>"
  let ?s2 = "?s1\<lparr>cs_conn := ?c2, cs_pending := [], cs_accepted := [sample_msg 1]\<rparr>"
  have "conn_step (cs_new ?c) ?s1" using cs_handle [of "cs_new ?c" "sample_msg 1"] by (simp add: cs_new_def)
  then have "conn_serial (cs_new ?c) ?s1" by (rule conn_serial) (simp add: cs_new_def)
  moreover have "HandleMessage 0 True (sample_msg 1) ?c = Some ?c2" by code_simp
  then have "conn_step ?s1 ?s2"
    using cs_handled [of "sample_msg 1" ?s1 True ?c2] by (simp add: cs_new_def NewConnection_def)
  then have "conn_serial ?s1 ?s2" by (rule conn_serial) simp
  ultimately have reach: "conn_serial\<^sup>*\<^sup>* (cs_new ?c) ?s2" by auto
  from connection_fifo [OF this] reach show ?thesis by (auto intro!: exI [of _ ?s2])
qed

text \<open>
  No call stays blocked on a closed connection: once the connection is canceled, every
  \<open>HandleMessage\<close> and every \<open>Read\<close> returns, whichever ready case is taken; a \<open>Read\<close> also returns
  whenever a message is in the mailbox, and a \<open>HandleMessage\<close> whenever the mailbox is not full.
\<close>

lemma connection_never_stuck:
  assumes "conn_canceled c \<or> conn_mailbox c \<noteq> [] \<or> readErr \<noteq> None"
    and "conn_canceled c \<or> can_send readers c"
  shows "Read pick readErr c \<noteq> None \<and> HandleMessage readers pick' msg c \<noteq> None"
  using assms by (auto simp: Read_def read_cases_def HandleMessage_def Let_def split: list.split)

lemma connection_never_stuck_witness:
  "let c = snd (conn_HandleClose StatusGoingAway ''bye'' (NewConnection ''G'' ''s1''
      \<lparr>ci_Headers = [], ci_RemoteAddr = ''''\<rparr> 0))
   in Read 0 None c \<noteq> None \<and> HandleMessage 0 False (sample_msg 1) c \<noteq> None"
proof -
  have "conn_canceled (snd (conn_HandleClose StatusGoingAway ''bye'' (NewConnection ''G'' ''s1''
      \<lparr>ci_Headers = [], ci_RemoteAddr = ''''\<rparr> 0)))" by code_simp
  then show ?thesis
    unfolding Let_def using connection_never_stuck [where readErr = None and readers = 0] by blast
qed

end
