(* ===== verification/Service.thy ===== *)
theory Service
  imports Connection
begin

text \<open>
  The service, \<open>service.go\<close>: its table of connections, the record of recently closed sockets, its
  handlers for transport messages, and the bodies of its prune and heartbeat loops. (\<open>Listen\<close> is
  modelled with the gateway's \<open>Connect\<close> in the theory of the run loops.)

  Connections are shared by pointer between the table and the goroutine that serves them, so they
  live in a heap. What the service does to the transport and the router is a list of effects in the
  order it happens; what the transport returns is an argument.
\<close>

section \<open>State and effects\<close>

type_synonym caddr = nat

text \<open>
  \<open>s_RouteDescriptors\<close> is \<open>None\<close> for the nil slice. \<open>s_handlerRoutes\<close> stands for the handler: \<open>Some\<close>
  of the patterns of its \<open>RouteDescriptors()\<close> when it is a \<open>routeDescriptorProvider\<close>.
\<close>

record 'p Service =
  s_GatewayNames :: "string list"
  s_Name :: string
  s_ID :: string
  s_RouteDescriptors :: "'p RouteDescriptor list option"
  s_handlerRoutes :: "'p list option"
  s_connections :: "(string, caddr) gomap"
  s_closedSockets :: "(string, int) gomap"
  s_PruneInterval :: int
  s_ClosedSocketTTL :: int
  s_HeartbeatInterval :: int
  s_MailboxSize :: int

datatype 'p svc_effect =
    HandleConnection ConnectionInfo caddr
  | AnnounceService "'p ServiceDescriptor"
  | HeartbeatSockets string string "string list"
  | NotifyClosed string Status string

record ('p, 'v) sworld =
  sw_heap :: "caddr \<Rightarrow> 'v Connection"
  sw_next :: caddr
  sw_svc :: "'p Service"
  sw_out :: "'p svc_effect list"

text \<open>\<open>iid\<close> is the result of \<open>generateID\<close>; the four values after the routes are the package variables.\<close>

definition NewService :: "string \<Rightarrow> string \<Rightarrow> 'p list option \<Rightarrow> int \<Rightarrow> int \<Rightarrow> int \<Rightarrow> int \<Rightarrow> 'p Service" where
  "NewService name iid handlerRoutes pruneInterval ttl heartbeat mailbox =
     \<lparr>s_GatewayNames = [], s_Name = name, s_ID = iid, s_RouteDescriptors = None,
      s_handlerRoutes = handlerRoutes, s_connections = [], s_closedSockets = [],
      s_PruneInterval = pruneInterval, s_ClosedSocketTTL = ttl, s_HeartbeatInterval = heartbeat,
      s_MailboxSize = mailbox\<rparr>"

definition svc_emit :: "'p svc_effect \<Rightarrow> ('p, 'v) sworld \<Rightarrow> ('p, 'v) sworld" where
  "svc_emit e w = w\<lparr>sw_out := sw_out w @ [e]\<rparr>"

definition set_connections :: "(string, caddr) gomap \<Rightarrow> ('p, 'v) sworld \<Rightarrow> ('p, 'v) sworld" where
  "set_connections m w = w\<lparr>sw_svc := (sw_svc w)\<lparr>s_connections := m\<rparr>\<rparr>"

definition set_closedSockets :: "(string, int) gomap \<Rightarrow> ('p, 'v) sworld \<Rightarrow> ('p, 'v) sworld" where
  "set_closedSockets m w = w\<lparr>sw_svc := (sw_svc w)\<lparr>s_closedSockets := m\<rparr>\<rparr>"

section \<open>Connections\<close>

text \<open>
  \<open>HandleClose\<close> of the connection at an address: when \<open>closeOnce\<close> lets it run, the callback that
  \<open>ensureConnection\<close> installed deletes the table's entry of the connection's socket.
\<close>

definition svc_HandleClose :: "Status \<Rightarrow> string \<Rightarrow> caddr \<Rightarrow> ('p, 'v) sworld \<Rightarrow> ('p, 'v) sworld" where
  "svc_HandleClose status reason a w =
     (case conn_HandleClose status reason (sw_heap w a) of (called, c) \<Rightarrow>
        let w1 = w\<lparr>sw_heap := (sw_heap w)(a := c)\<rparr>
        in if called
           then set_connections (AList.delete (conn_socketID c) (s_connections (sw_svc w1))) w1
           else w1)"

definition ensureConnection :: "string \<Rightarrow> string \<Rightarrow> ConnectionInfo \<Rightarrow> ('p, 'v) sworld
    \<Rightarrow> caddr option \<times> ('p, 'v) sworld" where
  "ensureConnection gatewayID socketID info w =
     (if go_has (s_closedSockets (sw_svc w)) socketID then (None, w)
      else
        case map_of (s_connections (sw_svc w)) socketID of
          Some a \<Rightarrow> (Some a, w)
        | None \<Rightarrow>
            (let a = sw_next w;
                 c = NewConnection gatewayID socketID info (s_MailboxSize (sw_svc w));
                 w1 = svc_emit (HandleConnection info a)
                   (w\<lparr>sw_heap := (sw_heap w)(a := c), sw_next := Suc a\<rparr>)
             in (Some a, set_connections (AList.update socketID a (s_connections (sw_svc w1))) w1)))"

definition closeConnection :: "int \<Rightarrow> string \<Rightarrow> Status \<Rightarrow> string \<Rightarrow> ('p, 'v) sworld \<Rightarrow> ('p, 'v) sworld" where
  "closeConnection now socketID status reason w =
     (let found = map_of (s_connections (sw_svc w)) socketID;
          w1 = set_closedSockets (AList.update socketID now (s_closedSockets (sw_svc w)))
                 (set_connections (AList.delete socketID (s_connections (sw_svc w))) w)
      in case found of None \<Rightarrow> w1 | Some a \<Rightarrow> svc_HandleClose status reason a w1)"

definition closeAllConnections :: "string range_order \<Rightarrow> ('p, 'v) sworld \<Rightarrow> ('p, 'v) sworld" where
  "closeAllConnections rg w =
     (let m = s_connections (sw_svc w);
          connections = map (\<lambda>socketID. go_get 0 m socketID) (rg 0 (gomap_keys m))
      in fold (svc_HandleClose StatusGoingAway ''Service is stopping'') connections (set_connections [] w))"

text \<open>\<open>Connection.Write\<close> on a connection of the service; \<open>send\<close> is the transport's \<open>MessageGateway\<close>.\<close>

definition svc_Write :: "(string \<Rightarrow> string \<Rightarrow> 'v SocketMessage \<Rightarrow> go_error option) \<Rightarrow> 'v SocketMessage
    \<Rightarrow> caddr \<Rightarrow> ('p, 'v) sworld \<Rightarrow> go_error option \<times> ('p, 'v) sworld" where
  "svc_Write send msg a w =
     (case Write send msg (sw_heap w a) of (err, called, c) \<Rightarrow>
        let w1 = w\<lparr>sw_heap := (sw_heap w)(a := c)\<rparr>
        in (err, if called
                 then set_connections (AList.delete (conn_socketID c) (s_connections (sw_svc w1))) w1
                 else w1))"

section \<open>Messages and announcements\<close>

text \<open>
  The result of \<open>handleServiceMessage\<close>: \<open>None\<close> while the call has to wait for room in the mailbox.
  \<open>readers\<close> and \<open>pick\<close> are the arguments of \<open>HandleMessage\<close>.
\<close>

definition handleServiceMessage :: "nat \<Rightarrow> bool \<Rightarrow> string \<Rightarrow> string \<Rightarrow> ConnectionInfo \<Rightarrow> 'v SocketMessage
    \<Rightarrow> ('p, 'v) sworld \<Rightarrow> ('p, 'v) sworld option" where
  "handleServiceMessage readers pick gatewayID socketID connInfo msg w =
     (case ensureConnection gatewayID socketID connInfo w of
        (None, w1) \<Rightarrow> Some w1
      | (Some a, w1) \<Rightarrow>
          map_option (\<lambda>c. w1\<lparr>sw_heap := (sw_heap w1)(a := c)\<rparr>)
            (HandleMessage readers pick msg (sw_heap w1 a)))"

definition announced_routes :: "'p Service \<Rightarrow> 'p RouteDescriptor list" where
  "announced_routes s = (case s_RouteDescriptors s of
       Some routes \<Rightarrow> routes
     | None \<Rightarrow> (case s_handlerRoutes s of
          Some patterns \<Rightarrow> map (\<lambda>p. \<lparr>Pattern = p\<rparr>) patterns
        | None \<Rightarrow> []))"

definition doAnnounce :: "('p, 'v) sworld \<Rightarrow> ('p, 'v) sworld" where
  "doAnnounce w =
     svc_emit (AnnounceService
       \<lparr>sd_Name = s_Name (sw_svc w), sd_ID = s_ID (sw_svc w), sd_GatewayNames = s_GatewayNames (sw_svc w),
        sd_RouteDescriptors = announced_routes (sw_svc w), sd_LastSeenAt = None, sd_socketIDs = []\<rparr>) w"

text \<open>\<open>ids\<close> are the IDs of the service descriptors in the announcement of the gateway \<open>name\<close>.\<close>

definition handleGatewayAnnounce :: "string \<Rightarrow> string list \<Rightarrow> ('p, 'v) sworld \<Rightarrow> ('p, 'v) sworld" where
  "handleGatewayAnnounce name ids w =
     (let names = s_GatewayNames (sw_svc w);
          isWantedGateway = (length names = 0 \<or> name \<in> set names)
      in if \<not> isWantedGateway then w
         else
           let foundSelf = list_ex (\<lambda>iid. iid = s_ID (sw_svc w)) ids
           in if \<not> foundSelf then doAnnounce w else w)"

section \<open>The loops\<close>

definition prune_closed :: "int \<Rightarrow> int \<Rightarrow> string \<Rightarrow> (string, int) gomap \<Rightarrow> (string, int) gomap" where
  "prune_closed now ttl socketID m = (case map_of m socketID of
       None \<Rightarrow> m
     | Some closedAt \<Rightarrow> if now - closedAt > ttl then AList.delete socketID m else m)"

definition pruneStaleResources :: "string range_order \<Rightarrow> int \<Rightarrow> ('p, 'v) sworld \<Rightarrow> ('p, 'v) sworld" where
  "pruneStaleResources rg now w =
     (let m = s_closedSockets (sw_svc w)
      in set_closedSockets (fold (prune_closed now (s_ClosedSocketTTL (sw_svc w))) (rg 0 (gomap_keys m)) m) w)"

text \<open>The first loop of \<open>heartbeatConnections\<close>: the sockets of each gateway.\<close>

definition group_by_gateway :: "('p, 'v) sworld \<Rightarrow> string list \<Rightarrow> (string, string list) gomap" where
  "group_by_gateway w socketIDs =
     fold (\<lambda>socketID m.
       let gatewayID = GatewayID (sw_heap w (go_get 0 (s_connections (sw_svc w)) socketID))
       in AList.update gatewayID (go_get [] m gatewayID @ [socketID]) m) socketIDs []"

definition heartbeat_dead :: "(string \<Rightarrow> int) \<Rightarrow> string \<Rightarrow> ('p, 'v) sworld \<Rightarrow> ('p, 'v) sworld" where
  "heartbeat_dead now socketID w =
     svc_emit (NotifyClosed socketID StatusGoingAway ''No heartbeat response'')
       (closeConnection (now socketID) socketID StatusGoingAway ''No heartbeat response'' w)"

text \<open>
  The second loop, for one gateway; \<open>hb gatewayID socketIDs\<close> is the transport's answer: the dead
  sockets, or \<open>None\<close> for an error. \<open>now socketID\<close> is the time at which a socket is closed.
\<close>

definition heartbeat_gateway :: "(string \<Rightarrow> string list \<Rightarrow> string list option) \<Rightarrow> (string \<Rightarrow> int)
    \<Rightarrow> (string, string list) gomap \<Rightarrow> string \<Rightarrow> ('p, 'v) sworld \<Rightarrow> ('p, 'v) sworld" where
  "heartbeat_gateway hb now groups gatewayID w =
     (let socketIDs = go_get [] groups gatewayID;
          w1 = svc_emit (HeartbeatSockets gatewayID (s_ID (sw_svc w)) socketIDs) w;
          dead = (case hb gatewayID socketIDs of None \<Rightarrow> socketIDs | Some dead \<Rightarrow> dead)
      in fold (heartbeat_dead now) dead w1)"

definition heartbeatConnections :: "(string \<Rightarrow> string list \<Rightarrow> string list option) \<Rightarrow> string range_order
    \<Rightarrow> (string \<Rightarrow> int) \<Rightarrow> ('p, 'v) sworld \<Rightarrow> ('p, 'v) sworld" where
  "heartbeatConnections hb rg now w =
     (let groups = group_by_gateway w (rg 0 (gomap_keys (s_connections (sw_svc w))))
      in fold (heartbeat_gateway hb now groups) (rg 1 (gomap_keys groups)) w)"

end
