(* ===== verification/ServiceInv.thy ===== *)
theory ServiceInv
  imports Service
begin

text \<open>
  The invariant of the service: the table lists exactly the open connections, under their socket IDs,
  and no socket is both open and recorded as recently closed. Every operation keeps it.
\<close>

named_theorems svc_simps \<open>fields of the service's world after an operation\<close>

lemma svc_emit_simps [simp, svc_simps]:
  "sw_heap (svc_emit e w) = sw_heap w" "sw_next (svc_emit e w) = sw_next w"
  "sw_svc (svc_emit e w) = sw_svc w" "sw_out (svc_emit e w) = sw_out w @ [e]"
  by (simp_all add: svc_emit_def)

lemma set_tables_simps [simp, svc_simps]:
  "sw_heap (set_connections m w) = sw_heap w" "sw_next (set_connections m w) = sw_next w"
  "sw_out (set_connections m w) = sw_out w" "s_connections (sw_svc (set_connections m w)) = m"
  "s_closedSockets (sw_svc (set_connections m w)) = s_closedSockets (sw_svc w)"
  "sw_heap (set_closedSockets k w) = sw_heap w" "sw_next (set_closedSockets k w) = sw_next w"
  "sw_out (set_closedSockets k w) = sw_out w" "s_closedSockets (sw_svc (set_closedSockets k w)) = k"
  "s_connections (sw_svc (set_closedSockets k w)) = s_connections (sw_svc w)"
  by (simp_all add: set_connections_def set_closedSockets_def)

text \<open>The part of the service that no operation changes.\<close>

definition svc_config :: "'p Service \<Rightarrow> 'p Service" where
  "svc_config s = s\<lparr>s_connections := [], s_closedSockets := []\<rparr>"

lemma svc_config_sel:
  assumes "svc_config s = svc_config t"
  shows "s_ID s = s_ID t" "s_ClosedSocketTTL s = s_ClosedSocketTTL t" "s_MailboxSize s = s_MailboxSize t"
  using assms by (cases s; cases t; simp add: svc_config_def)+

lemma svc_config_simps [simp, svc_simps]:
  "svc_config (sw_svc (set_connections m w)) = svc_config (sw_svc w)"
  "svc_config (sw_svc (set_closedSockets k w)) = svc_config (sw_svc w)"
  by (simp_all add: svc_config_def set_connections_def set_closedSockets_def)

section \<open>The invariant\<close>

definition handled :: "('p, 'v) sworld \<Rightarrow> caddr list" where
  "handled w = List.map_filter (\<lambda>e. case e of HandleConnection info a \<Rightarrow> Some a | _ \<Rightarrow> None) (sw_out w)"

definition svc_ok :: "('p, 'v) sworld \<Rightarrow> bool" where
  "svc_ok w \<longleftrightarrow>
     gomap_ok (s_connections (sw_svc w)) \<and> gomap_ok (s_closedSockets (sw_svc w))
     \<and> (\<forall>s a. map_of (s_connections (sw_svc w)) s = Some a \<longrightarrow>
          a < sw_next w \<and> conn_socketID (sw_heap w a) = s \<and> \<not> conn_once (sw_heap w a))
     \<and> (\<forall>a < sw_next w. conn_canceled (sw_heap w a) = conn_once (sw_heap w a)
          \<and> (\<not> conn_once (sw_heap w a) \<longrightarrow>
               map_of (s_connections (sw_svc w)) (conn_socketID (sw_heap w a)) = Some a))
     \<and> (\<forall>s. go_has (s_closedSockets (sw_svc w)) s \<longrightarrow> \<not> go_has (s_connections (sw_svc w)) s)
     \<and> handled w = [0..<sw_next w]"

lemma svc_okI:
  assumes "gomap_ok (s_connections (sw_svc w))" "gomap_ok (s_closedSockets (sw_svc w))"
    and "\<And>s a. map_of (s_connections (sw_svc w)) s = Some a \<Longrightarrow>
          a < sw_next w \<and> conn_socketID (sw_heap w a) = s \<and> \<not> conn_once (sw_heap w a)"
    and "\<And>a. a < sw_next w \<Longrightarrow> conn_canceled (sw_heap w a) = conn_once (sw_heap w a)"
    and "\<And>a. a < sw_next w \<Longrightarrow> \<not> conn_once (sw_heap w a) \<Longrightarrow>
          map_of (s_connections (sw_svc w)) (conn_socketID (sw_heap w a)) = Some a"
    and "\<And>s. go_has (s_closedSockets (sw_svc w)) s \<Longrightarrow> \<not> go_has (s_connections (sw_svc w)) s"
    and "handled w = [0..<sw_next w]"
  shows "svc_ok w"
  unfolding svc_ok_def using assms by blast

lemma svc_okD:
  assumes "svc_ok w"
  shows "gomap_ok (s_connections (sw_svc w))" "gomap_ok (s_closedSockets (sw_svc w))"
    "map_of (s_connections (sw_svc w)) s = Some a \<Longrightarrow> a < sw_next w \<and> conn_socketID (sw_heap w a) = s
       \<and> \<not> conn_once (sw_heap w a) \<and> \<not> conn_canceled (sw_heap w a)"
    "go_has (s_closedSockets (sw_svc w)) s \<Longrightarrow> map_of (s_connections (sw_svc w)) s = None"
    "handled w = [0..<sw_next w]"
    "a < sw_next w \<Longrightarrow> conn_canceled (sw_heap w a) = conn_once (sw_heap w a)"
    "a < sw_next w \<Longrightarrow> \<not> conn_once (sw_heap w a) \<Longrightarrow>
       map_of (s_connections (sw_svc w)) (conn_socketID (sw_heap w a)) = Some a"
  using assms by (auto simp: svc_ok_def go_has_def)

definition closed_conn :: "Status \<Rightarrow> string \<Rightarrow> 'v Connection \<Rightarrow> 'v Connection" where
  "closed_conn status reason c = c\<lparr>conn_once := True, conn_closeStatus := Some status,
     conn_closeReason := reason, conn_canceled := True\<rparr>"

lemma closed_conn_simps [simp]:
  "conn_once (closed_conn status reason c)" "conn_canceled (closed_conn status reason c)"
  "conn_socketID (closed_conn status reason c) = conn_socketID c"
  "conn_gatewayID (closed_conn status reason c) = conn_gatewayID c"
  by (simp_all add: closed_conn_def)

lemma svc_HandleClose_open:
  "\<not> conn_once (sw_heap w a) \<Longrightarrow> svc_HandleClose status reason a w =
     set_connections (AList.delete (conn_socketID (sw_heap w a)) (s_connections (sw_svc w)))
       (w\<lparr>sw_heap := (sw_heap w)(a := closed_conn status reason (sw_heap w a))\<rparr>)"
  by (simp add: svc_HandleClose_def conn_HandleClose_def closed_conn_def)

lemma closeConnection_absent:
  "map_of (s_connections (sw_svc w)) s = None \<Longrightarrow> closeConnection now s status reason w =
     set_closedSockets (AList.update s now (s_closedSockets (sw_svc w))) w"
proof -
  assume a: "map_of (s_connections (sw_svc w)) s = None"
  then have "AList.delete s (s_connections (sw_svc w)) = s_connections (sw_svc w)"
    by (simp add: map_of_eq_None_iff delete_id)
  with a show ?thesis by (simp add: closeConnection_def set_connections_def set_closedSockets_def Let_def)
qed

lemma delete_twice: "AList.delete k (AList.delete k m) = AList.delete k m"
  by (simp add: AList.delete_eq)

lemma closeConnection_open:
  assumes "svc_ok w" "map_of (s_connections (sw_svc w)) s = Some a"
  shows "closeConnection now s status reason w =
    set_closedSockets (AList.update s now (s_closedSockets (sw_svc w)))
      (set_connections (AList.delete s (s_connections (sw_svc w)))
        (w\<lparr>sw_heap := (sw_heap w)(a := closed_conn status reason (sw_heap w a))\<rparr>))"
  using svc_okD(3) [OF assms] assms(2)
  by (simp add: closeConnection_def svc_HandleClose_open Let_def)
    (simp add: set_connections_def set_closedSockets_def delete_twice)

section \<open>Preservation\<close>

lemma handled_simps [simp, svc_simps]:
  "handled (svc_emit e w) = handled w @ (case e of HandleConnection info a \<Rightarrow> [a] | _ \<Rightarrow> [])"
  "handled (set_connections m w) = handled w" "handled (set_closedSockets k w) = handled w"
  "handled (w\<lparr>sw_heap := h\<rparr>) = handled w"
  by (simp_all add: handled_def List.map_filter_def set_connections_def set_closedSockets_def
      split: svc_effect.split)

lemma handled_alloc: "handled (w\<lparr>sw_heap := h, sw_next := k\<rparr>) = handled w"
  by (simp add: handled_def)

lemma svc_ok_emit: "(\<And>info a. e \<noteq> HandleConnection info a) \<Longrightarrow> svc_ok w \<Longrightarrow> svc_ok (svc_emit e w)"
  by (cases e) (auto simp: svc_ok_def)

text \<open>A change of a connection's mailbox.\<close>

lemma svc_ok_mailbox:
  assumes "svc_ok w"
  shows "svc_ok (w\<lparr>sw_heap := (sw_heap w)(a := (sw_heap w a)\<lparr>conn_mailbox := m\<rparr>)\<rparr>)"
  using assms by (auto simp: svc_ok_def)

text \<open>Closing the open connection at an address, together with the deletion of its entry.\<close>

lemma closed_open_ok:
  assumes "svc_ok w" "map_of (s_connections (sw_svc w)) s = Some a"
    and "gomap_ok k"
    and "\<And>x. go_has k x \<Longrightarrow> x = s \<or> go_has (s_closedSockets (sw_svc w)) x"
  shows "svc_ok (set_closedSockets k (set_connections (AList.delete s (s_connections (sw_svc w)))
       (w\<lparr>sw_heap := (sw_heap w)(a := closed_conn status reason (sw_heap w a))\<rparr>)))"
proof -
  have a: "a < sw_next w" "conn_socketID (sw_heap w a) = s" using svc_okD(3) [OF assms(1,2)] by auto
  have other: "map_of (s_connections (sw_svc w)) x = Some a \<longleftrightarrow> x = s" for x
    using svc_okD(3) [OF assms(1), of x a] a(2) assms(2) by auto
  show ?thesis (is "svc_ok ?w")
  proof (rule svc_okI)
    show "gomap_ok (s_connections (sw_svc ?w))" "gomap_ok (s_closedSockets (sw_svc ?w))"
      "handled ?w = [0..<sw_next ?w]"
      using assms(1,3) by (simp_all add: svc_ok_def)
    show "b < sw_next ?w \<and> conn_socketID (sw_heap ?w b) = x \<and> \<not> conn_once (sw_heap ?w b)"
      if "map_of (s_connections (sw_svc ?w)) x = Some b" for x b
      using that other [of x] svc_okD(3) [OF assms(1), of x b] by (auto split: if_splits)
    show "conn_canceled (sw_heap ?w b) = conn_once (sw_heap ?w b)" if "b < sw_next ?w" for b
      using that svc_okD(6) [OF assms(1), of b] by simp
    show "map_of (s_connections (sw_svc ?w)) (conn_socketID (sw_heap ?w b)) = Some b"
      if "b < sw_next ?w" "\<not> conn_once (sw_heap ?w b)" for b
      using that svc_okD(7) [OF assms(1), of b] assms(2) by (auto split: if_splits)
    show "\<not> go_has (s_connections (sw_svc ?w)) x" if "go_has (s_closedSockets (sw_svc ?w)) x" for x
      using that assms(4) [of x] svc_okD(4) [OF assms(1), of x] by (auto simp: go_has_def)
  qed
qed

lemma closed_open_same_ok:
  assumes "svc_ok w" "map_of (s_connections (sw_svc w)) s = Some a"
  shows "svc_ok (set_connections (AList.delete s (s_connections (sw_svc w)))
       (w\<lparr>sw_heap := (sw_heap w)(a := closed_conn status reason (sw_heap w a))\<rparr>))"
  using closed_open_ok [OF assms, of "s_closedSockets (sw_svc w)" status reason] assms(1)
  by (simp add: set_closedSockets_def set_connections_def svc_ok_def)

lemma svc_HandleClose_ok:
  assumes "svc_ok w" "a < sw_next w"
  shows "svc_ok (svc_HandleClose status reason a w)"
proof (cases "conn_once (sw_heap w a)")
  case True
  then show ?thesis using assms(1) by (simp add: svc_HandleClose_def conn_HandleClose_def)
next
  case False
  then have "map_of (s_connections (sw_svc w)) (conn_socketID (sw_heap w a)) = Some a"
    using assms by (simp add: svc_ok_def)
  then show ?thesis
    using closed_open_same_ok [OF assms(1)] False by (simp add: svc_HandleClose_open)
qed

lemma closeConnection_ok:
  assumes "svc_ok w"
  shows "svc_ok (closeConnection now s status reason w)"
proof (cases "map_of (s_connections (sw_svc w)) s")
  case None
  with assms show ?thesis by (auto simp: closeConnection_absent svc_ok_def go_has_def)
next
  case (Some a)
  show ?thesis
    unfolding closeConnection_open [OF assms Some]
    using assms by (intro closed_open_ok [OF assms Some]) (auto simp: svc_okD)
qed

lemma ensureConnection_ok:
  fixes w :: "('a, 'b) sworld"
  assumes "svc_ok w"
  shows "svc_ok (snd (ensureConnection gatewayID s info w))"
proof -
  show ?thesis
  proof (cases "go_has (s_closedSockets (sw_svc w)) s \<or> map_of (s_connections (sw_svc w)) s \<noteq> None")
    case False
    then have n: "map_of (s_connections (sw_svc w)) s = None" "\<not> go_has (s_closedSockets (sw_svc w)) s" by auto
    let ?c = "NewConnection gatewayID s info (s_MailboxSize (sw_svc w)) :: 'b Connection"
    let ?w = "set_connections (AList.update s (sw_next w) (s_connections (sw_svc w)))
      (svc_emit (HandleConnection info (sw_next w)) (w\<lparr>sw_heap := (sw_heap w)(sw_next w := ?c), sw_next := Suc (sw_next w)\<rparr>))"
    have c: "conn_socketID ?c = s" "\<not> conn_once ?c" "\<not> conn_canceled ?c" by (simp_all add: NewConnection_def)
    have "svc_ok ?w"
    proof (rule svc_okI)
      show "gomap_ok (s_connections (sw_svc ?w))" "gomap_ok (s_closedSockets (sw_svc ?w))"
        using assms by (simp_all add: svc_ok_def)
      show "handled ?w = [0..<sw_next ?w]"
        using assms by (simp add: handled_alloc svc_ok_def)
      show "b < sw_next ?w \<and> conn_socketID (sw_heap ?w b) = x \<and> \<not> conn_once (sw_heap ?w b)"
        if "map_of (s_connections (sw_svc ?w)) x = Some b" for x b
        using that c svc_okD(3) [OF assms, of x b] by (auto split: if_splits)
      show "conn_canceled (sw_heap ?w b) = conn_once (sw_heap ?w b)" if "b < sw_next ?w" for b
        using that c svc_okD(6) [OF assms, of b] by auto
      show "map_of (s_connections (sw_svc ?w)) (conn_socketID (sw_heap ?w b)) = Some b"
        if "b < sw_next ?w" "\<not> conn_once (sw_heap ?w b)" for b
        using that c n svc_okD(7) [OF assms, of b] by (auto split: if_splits)
      show "\<not> go_has (s_connections (sw_svc ?w)) x" if "go_has (s_closedSockets (sw_svc ?w)) x" for x
        using that n svc_okD(4) [OF assms, of x] by (auto simp: go_has_def)
    qed
    then show ?thesis using n by (simp add: ensureConnection_def Let_def)
  qed (use assms in \<open>auto simp: ensureConnection_def\<close>)
qed

lemma ensureConnection_addr:
  "svc_ok w \<Longrightarrow> fst (ensureConnection gatewayID s info w) = Some a \<Longrightarrow> a < sw_next (snd (ensureConnection gatewayID s info w))"
  using svc_okD(3) [of w s a] by (auto simp: ensureConnection_def Let_def split: if_splits option.splits)

lemma svc_ok_HandleMessage:
  assumes "svc_ok w" "HandleMessage readers pick msg (sw_heap w a) = Some c"
  shows "svc_ok (w\<lparr>sw_heap := (sw_heap w)(a := c)\<rparr>)"
  using assms(2) by (cases rule: HandleMessage_Some) (use assms(1) svc_ok_mailbox in auto)

lemma handleServiceMessage_ok:
  assumes "svc_ok w" "handleServiceMessage readers pick gatewayID s info msg w = Some w'"
  shows "svc_ok w'"
proof -
  obtain r w1 where e: "ensureConnection gatewayID s info w = (r, w1)" by fastforce
  then have "svc_ok w1" using ensureConnection_ok [OF assms(1)] by (metis snd_conv)
  then show ?thesis
    using assms(2) e svc_ok_HandleMessage by (auto simp: handleServiceMessage_def split: option.splits)
qed

lemma svc_Write_eq:
  "svc_Write send msg a w = (let err = send (conn_gatewayID (sw_heap w a)) (conn_socketID (sw_heap w a)) msg
     in (err, if err = None then w
              else svc_HandleClose StatusInternalError ''Failed to write message to gateway'' a w))"
  by (simp add: svc_Write_def Write_def svc_HandleClose_def Let_def split: prod.split)

lemma doAnnounce_ok: "svc_ok w \<Longrightarrow> svc_ok (doAnnounce w)"
  by (simp add: doAnnounce_def svc_ok_emit)

lemma heartbeat_dead_ok: "svc_ok w \<Longrightarrow> svc_ok (heartbeat_dead now s w)"
  by (simp add: heartbeat_dead_def svc_ok_emit closeConnection_ok)

lemma fold_ok: "(\<And>x w. svc_ok w \<Longrightarrow> svc_ok (f x w)) \<Longrightarrow> svc_ok w \<Longrightarrow> svc_ok (fold f xs w)"
  by (induction xs arbitrary: w) auto

lemma heartbeatConnections_ok: "svc_ok w \<Longrightarrow> svc_ok (heartbeatConnections hb rg now w)"
  by (simp add: heartbeatConnections_def Let_def heartbeat_gateway_def fold_ok heartbeat_dead_ok svc_ok_emit)

end
