(* ===== verification/ServiceProps.thy ===== *)
theory ServiceProps
  imports ServiceInv
begin

text \<open>
  The properties of the service: its invariant over every run, the rejection of messages for closed
  sockets, the effect of heartbeats and pruning, and when it announces itself.
\<close>

section \<open>Effects of the operations\<close>

lemma closeConnection_effect:
  assumes "svc_ok w"
  shows "s_connections (sw_svc (closeConnection now s status reason w)) = AList.delete s (s_connections (sw_svc w))"
    "s_closedSockets (sw_svc (closeConnection now s status reason w)) = AList.update s now (s_closedSockets (sw_svc w))"
    "sw_out (closeConnection now s status reason w) = sw_out w"
    "sw_next (closeConnection now s status reason w) = sw_next w"
    "sw_heap (closeConnection now s status reason w) a =
      (if map_of (s_connections (sw_svc w)) s = Some a then closed_conn status reason (sw_heap w a) else sw_heap w a)"
    "svc_config (sw_svc (closeConnection now s status reason w)) = svc_config (sw_svc w)"
proof -
  have "s_connections (sw_svc (closeConnection now s status reason w)) = AList.delete s (s_connections (sw_svc w))
    \<and> s_closedSockets (sw_svc (closeConnection now s status reason w)) = AList.update s now (s_closedSockets (sw_svc w))
    \<and> sw_out (closeConnection now s status reason w) = sw_out w
    \<and> sw_next (closeConnection now s status reason w) = sw_next w
    \<and> sw_heap (closeConnection now s status reason w) a =
      (if map_of (s_connections (sw_svc w)) s = Some a then closed_conn status reason (sw_heap w a) else sw_heap w a)
    \<and> svc_config (sw_svc (closeConnection now s status reason w)) = svc_config (sw_svc w)"
  proof (cases "map_of (s_connections (sw_svc w)) s")
    case None
    then have "AList.delete s (s_connections (sw_svc w)) = s_connections (sw_svc w)"
      by (simp add: map_of_eq_None_iff delete_id)
    then show ?thesis unfolding closeConnection_absent [OF None] using None by simp
  next
    case (Some b)
    show ?thesis unfolding closeConnection_open [OF assms Some] using Some by simp
  qed
  then show "s_connections (sw_svc (closeConnection now s status reason w)) = AList.delete s (s_connections (sw_svc w))"
    "s_closedSockets (sw_svc (closeConnection now s status reason w)) = AList.update s now (s_closedSockets (sw_svc w))"
    "sw_out (closeConnection now s status reason w) = sw_out w"
    "sw_next (closeConnection now s status reason w) = sw_next w"
    "sw_heap (closeConnection now s status reason w) a =
      (if map_of (s_connections (sw_svc w)) s = Some a then closed_conn status reason (sw_heap w a) else sw_heap w a)"
    "svc_config (sw_svc (closeConnection now s status reason w)) = svc_config (sw_svc w)" by blast+
qed

lemma svc_HandleClose_config: "svc_config (sw_svc (svc_HandleClose status reason a w)) = svc_config (sw_svc w)"
  by (simp add: svc_HandleClose_def Let_def split: prod.split)

lemma ensureConnection_config: "svc_config (sw_svc (snd (ensureConnection gatewayID s info w))) = svc_config (sw_svc w)"
  by (simp add: ensureConnection_def Let_def split: option.split)

section \<open>Runs of the service\<close>

text \<open>
  The events that change a service. \<open>RouterRead\<close> and \<open>RouterWrite\<close> are calls of \<open>Read\<close> and \<open>Write\<close>
  that the router makes on a connection it was handed; \<open>StopListen\<close> is the last step of \<open>Listen\<close>.
\<close>

datatype ('p, 'v) svc_event =
    ServiceMessage nat bool string string ConnectionInfo "'v SocketMessage"
  | GatewayAnnounced string "string list"
  | SocketClosed int string Status string
  | RouterRead caddr nat "go_error option"
  | RouterWrite caddr "string \<Rightarrow> string \<Rightarrow> 'v SocketMessage \<Rightarrow> go_error option" "'v SocketMessage"
  | PruneResources int
  | Heartbeat "string \<Rightarrow> string list \<Rightarrow> string list option" "string \<Rightarrow> int"
  | StopListen

text \<open>\<open>None\<close>: the call has to wait, or the address is not a connection.\<close>

fun svc_step :: "string range_order \<Rightarrow> ('p, 'v) svc_event \<Rightarrow> ('p, 'v) sworld \<Rightarrow> ('p, 'v) sworld option" where
  "svc_step rg (ServiceMessage readers pick gatewayID s info msg) w =
     handleServiceMessage readers pick gatewayID s info msg w"
| "svc_step rg (GatewayAnnounced name ids) w = Some (handleGatewayAnnounce name ids w)"
| "svc_step rg (SocketClosed now s status reason) w = Some (closeConnection now s status reason w)"
| "svc_step rg (RouterRead a pick readErr) w =
     (if a < sw_next w
      then map_option (\<lambda>(_, c). w\<lparr>sw_heap := (sw_heap w)(a := c)\<rparr>) (Read pick readErr (sw_heap w a))
      else None)"
| "svc_step rg (RouterWrite a send msg) w = (if a < sw_next w then Some (snd (svc_Write send msg a w)) else None)"
| "svc_step rg (PruneResources now) w = Some (pruneStaleResources rg now w)"
| "svc_step rg (Heartbeat hb now) w = Some (heartbeatConnections hb rg now w)"
| "svc_step rg StopListen w = Some (closeAllConnections rg w)"

inductive svc_next :: "('p, 'v) sworld \<Rightarrow> ('p, 'v) sworld \<Rightarrow> bool" where
  svc_next: "range_ok rg \<Longrightarrow> svc_step rg ev w = Some w' \<Longrightarrow> svc_next w w'"

definition svc_new :: "('p, 'v) sworld \<Rightarrow> bool" where
  "svc_new w \<longleftrightarrow> s_connections (sw_svc w) = [] \<and> s_closedSockets (sw_svc w) = []
     \<and> sw_next w = 0 \<and> sw_out w = []"

section \<open>Pruning the closed-socket records\<close>

text \<open>The loop treats each record on its own, so the order of the range does not matter.\<close>

interpretation prune_loop: keywise_loop "prune_closed now ttl" "map_of"
  "\<lambda>_ seen. case seen of None \<Rightarrow> None | Some t \<Rightarrow> if now - t > ttl then None else Some t" for now ttl
  by unfold_locales (auto simp: prune_closed_def split: option.split)

lemma prune_closed_gomap: "gomap_ok m \<Longrightarrow> gomap_ok (fold (prune_closed now ttl) ks m)"
  by (induction ks arbitrary: m) (auto simp: prune_closed_def split: option.split)

lemma pruneStaleResources_closed:
  assumes "svc_ok w" "range_ok rg"
  shows "map_of (s_closedSockets (sw_svc (pruneStaleResources rg now w))) s =
    (case map_of (s_closedSockets (sw_svc w)) s of None \<Rightarrow> None
     | Some t \<Rightarrow> if now - t > s_ClosedSocketTTL (sw_svc w) then None else Some t)"
proof -
  let ?m = "s_closedSockets (sw_svc w)"
  have "distinct (rg 0 (gomap_keys ?m))" "set (rg 0 (gomap_keys ?m)) = set (gomap_keys ?m)"
    using assms by (simp_all add: svc_ok_def gomap_ok_def)
  then show ?thesis
    by (auto simp: pruneStaleResources_def Let_def prune_loop.look_fold map_of_eq_None_iff
        simp del: set_map split: option.split dest: map_of_in_keys)
qed

lemma pruneStaleResources_ok:
  assumes "svc_ok w" "range_ok rg"
  shows "svc_ok (pruneStaleResources rg now w)"
proof -
  have closed: "go_has (s_closedSockets (sw_svc w)) s"
    if "go_has (s_closedSockets (sw_svc (pruneStaleResources rg now w))) s" for s
    using that pruneStaleResources_closed [OF assms, of now s] by (auto simp: go_has_def split: option.splits)
  have same: "sw_heap (pruneStaleResources rg now w) = sw_heap w" "sw_next (pruneStaleResources rg now w) = sw_next w"
    "s_connections (sw_svc (pruneStaleResources rg now w)) = s_connections (sw_svc w)"
    "handled (pruneStaleResources rg now w) = handled w"
    by (simp_all add: pruneStaleResources_def Let_def)
  have g: "gomap_ok (s_closedSockets (sw_svc (pruneStaleResources rg now w)))"
    using assms(1) by (simp add: pruneStaleResources_def Let_def prune_closed_gomap svc_ok_def)
  have "\<not> go_has (s_connections (sw_svc w)) s"
    if "go_has (s_closedSockets (sw_svc (pruneStaleResources rg now w))) s" for s
    using closed [OF that] assms(1) by (simp add: svc_ok_def)
  with g assms(1) show ?thesis unfolding svc_ok_def same by blast
qed

section \<open>Stopping\<close>

lemma fold_HandleClose:
  assumes "distinct as" "\<forall>a\<in>set as. \<not> conn_once (sw_heap w a)" "s_connections (sw_svc w) = []"
  shows "s_connections (sw_svc (fold (svc_HandleClose status reason) as w)) = []
    \<and> s_closedSockets (sw_svc (fold (svc_HandleClose status reason) as w)) = s_closedSockets (sw_svc w)
    \<and> sw_next (fold (svc_HandleClose status reason) as w) = sw_next w
    \<and> sw_out (fold (svc_HandleClose status reason) as w) = sw_out w
    \<and> sw_heap (fold (svc_HandleClose status reason) as w) =
        (\<lambda>a. if a \<in> set as then closed_conn status reason (sw_heap w a) else sw_heap w a)"
  using assms
proof (induction as arbitrary: w)
  case Nil
  then show ?case by simp
next
  case (Cons a as)
  let ?w = "svc_HandleClose status reason a w"
  have w: "?w = set_connections [] (w\<lparr>sw_heap := (sw_heap w)(a := closed_conn status reason (sw_heap w a))\<rparr>)"
    using Cons.prems by (simp add: svc_HandleClose_open)
  have "\<forall>b\<in>set as. \<not> conn_once (sw_heap ?w b)" using Cons.prems by (auto simp: w)
  with Cons.IH [of ?w] Cons.prems(1) show ?case by (auto simp: w)
qed

lemma table_addrs:
  assumes "svc_ok w" "range_ok rg"
  shows "distinct (map (\<lambda>s. go_get 0 (s_connections (sw_svc w)) s) (rg 0 (gomap_keys (s_connections (sw_svc w)))))"
    and "set (map (\<lambda>s. go_get 0 (s_connections (sw_svc w)) s) (rg 0 (gomap_keys (s_connections (sw_svc w))))) =
      {a. a < sw_next w \<and> \<not> conn_once (sw_heap w a)}"
proof -
  let ?m = "s_connections (sw_svc w)"
  have get: "map_of ?m s = Some (go_get 0 ?m s)" if "s \<in> set (gomap_keys ?m)" for s
    using that by (rule go_get_key)
  have inj: "inj_on (go_get 0 ?m) (set (gomap_keys ?m))"
    using svc_okD(3) [OF assms(1) get] by (intro inj_on_inverseI [where g = "\<lambda>a. conn_socketID (sw_heap w a)"]) blast
  have "distinct (gomap_keys ?m)" using assms(1) by (simp add: svc_ok_def gomap_ok_def)
  then show "distinct (map (\<lambda>s. go_get 0 ?m s) (rg 0 (gomap_keys ?m)))"
    using inj assms(2) by (simp add: distinct_map del: set_map)
  have "a \<in> go_get 0 ?m ` set (gomap_keys ?m) \<longleftrightarrow> a < sw_next w \<and> \<not> conn_once (sw_heap w a)" for a
  proof
    assume "a \<in> go_get 0 ?m ` set (gomap_keys ?m)"
    then show "a < sw_next w \<and> \<not> conn_once (sw_heap w a)" using get svc_okD(3) [OF assms(1)] by blast
  next
    assume "a < sw_next w \<and> \<not> conn_once (sw_heap w a)"
    then have m: "map_of ?m (conn_socketID (sw_heap w a)) = Some a" using svc_okD(7) [OF assms(1)] by blast
    then show "a \<in> go_get 0 ?m ` set (gomap_keys ?m)"
      using map_of_in_keys [OF m] by (auto simp: go_get_def intro!: image_eqI simp del: set_map)
  qed
  then show "set (map (\<lambda>s. go_get 0 ?m s) (rg 0 (gomap_keys ?m))) =
      {a. a < sw_next w \<and> \<not> conn_once (sw_heap w a)}"
    unfolding list.set_map range_ok_set [OF assms(2)] by blast
qed

lemma closeAllConnections_effect:
  assumes "svc_ok w" "range_ok rg"
  shows "s_connections (sw_svc (closeAllConnections rg w)) = []
    \<and> s_closedSockets (sw_svc (closeAllConnections rg w)) = s_closedSockets (sw_svc w)
    \<and> sw_next (closeAllConnections rg w) = sw_next w \<and> sw_out (closeAllConnections rg w) = sw_out w
    \<and> sw_heap (closeAllConnections rg w) = (\<lambda>a. if a < sw_next w \<and> \<not> conn_once (sw_heap w a)
        then closed_conn StatusGoingAway ''Service is stopping'' (sw_heap w a) else sw_heap w a)"
proof -
  let ?as = "map (\<lambda>s. go_get 0 (s_connections (sw_svc w)) s) (rg 0 (gomap_keys (s_connections (sw_svc w))))"
  note T = table_addrs [OF assms]
  have "\<forall>a\<in>set ?as. \<not> conn_once (sw_heap (set_connections [] w) a)" unfolding T(2) by simp
  from fold_HandleClose [OF T(1) this] show ?thesis
    unfolding T(2) by (auto simp: closeAllConnections_def Let_def fun_eq_iff)
qed

lemma closeAllConnections_ok:
  assumes "svc_ok w" "range_ok rg"
  shows "svc_ok (closeAllConnections rg w)"
  by (rule svc_okI) (use assms(1) closeAllConnections_effect [OF assms] in \<open>auto simp: svc_ok_def handled_def\<close>)

section \<open>Heartbeats\<close>

definition notify_dead :: "string \<Rightarrow> 'p svc_effect" where
  "notify_dead s = NotifyClosed s StatusGoingAway ''No heartbeat response''"

definition dead_of :: "(string \<Rightarrow> string list \<Rightarrow> string list option) \<Rightarrow> (string, string list) gomap \<Rightarrow> string \<Rightarrow> string list" where
  "dead_of hb groups g = (case hb g (go_get [] groups g) of None \<Rightarrow> go_get [] groups g | Some dead \<Rightarrow> dead)"

text \<open>The effect of closing a list of sockets one after the other.\<close>

definition closes :: "string set \<Rightarrow> ('p, 'v) sworld \<Rightarrow> ('p, 'v) sworld \<Rightarrow> bool" where
  "closes S w w' \<longleftrightarrow> svc_ok w' \<and> sw_next w' = sw_next w \<and> svc_config (sw_svc w') = svc_config (sw_svc w)
     \<and> (\<forall>s. map_of (s_connections (sw_svc w')) s = (if s \<in> S then None else map_of (s_connections (sw_svc w)) s))
     \<and> (\<forall>s. go_has (s_closedSockets (sw_svc w')) s \<longleftrightarrow> s \<in> S \<or> go_has (s_closedSockets (sw_svc w)) s)
     \<and> (\<forall>a. sw_heap w' a = (if \<exists>s\<in>S. map_of (s_connections (sw_svc w)) s = Some a
          then closed_conn StatusGoingAway ''No heartbeat response'' (sw_heap w a) else sw_heap w a))"

lemma closes_trans:
  assumes "closes S w w1" "closes T w1 w2"
  shows "closes (S \<union> T) w w2"
proof -
  have "sw_heap w2 a = (if \<exists>s\<in>S \<union> T. map_of (s_connections (sw_svc w)) s = Some a
      then closed_conn StatusGoingAway ''No heartbeat response'' (sw_heap w a) else sw_heap w a)" for a
  proof (cases "\<exists>s\<in>S. map_of (s_connections (sw_svc w)) s = Some a")
    case True
    then have "sw_heap w1 a = closed_conn StatusGoingAway ''No heartbeat response'' (sw_heap w a)"
      using assms(1) by (simp add: closes_def)
    then have "\<not> (\<exists>s\<in>T. map_of (s_connections (sw_svc w1)) s = Some a)"
      using assms(1) svc_okD(3) [of w1 _ a] unfolding closes_def by fastforce
    then have "sw_heap w2 a = sw_heap w1 a" using assms(2) by (simp add: closes_def)
    with True \<open>sw_heap w1 a = _\<close> show ?thesis by auto
  next
    case False
    then have "sw_heap w1 a = sw_heap w a" using assms(1) by (simp add: closes_def)
    moreover have "(\<exists>s\<in>T. map_of (s_connections (sw_svc w1)) s = Some a) \<longleftrightarrow>
        (\<exists>s\<in>S \<union> T. map_of (s_connections (sw_svc w)) s = Some a)"
      using assms(1) False unfolding closes_def by auto
    ultimately show ?thesis using assms(2) by (simp add: closes_def)
  qed
  with assms show ?thesis unfolding closes_def by auto
qed

lemma closes_emit: "closes S w w' \<Longrightarrow> (\<And>info a. e \<noteq> HandleConnection info a) \<Longrightarrow> closes S w (svc_emit e w')"
  by (simp add: closes_def svc_ok_emit)

lemma closes_refl: "svc_ok w \<Longrightarrow> closes {} w w"
  by (simp add: closes_def)

lemma closes_dead:
  assumes "svc_ok w"
  shows "closes {s} w (heartbeat_dead now s w)" "sw_out (heartbeat_dead now s w) = sw_out w @ [notify_dead s]"
  using assms by (simp_all add: heartbeat_dead_def notify_dead_def closes_def closeConnection_effect
      svc_ok_emit closeConnection_ok)

lemma fold_heartbeat_dead:
  "svc_ok w \<Longrightarrow> closes (set dead) w (fold (heartbeat_dead now) dead w)
    \<and> sw_out (fold (heartbeat_dead now) dead w) = sw_out w @ map notify_dead dead"
proof (induction dead arbitrary: w)
  case Nil
  then show ?case by (simp add: closes_refl)
next
  case (Cons s dead)
  note D = closes_dead [OF Cons.prems, where s = s and now = now]
  have "svc_ok (heartbeat_dead now s w)" using D(1) by (simp add: closes_def)
  from Cons.IH [OF this] D closes_trans [OF D(1)] show ?case by fastforce
qed

lemma fold_heartbeat_gateway:
  "svc_ok w \<Longrightarrow> closes (\<Union>g\<in>set gs. set (dead_of hb groups g)) w (fold (heartbeat_gateway hb now groups) gs w)
    \<and> sw_out (fold (heartbeat_gateway hb now groups) gs w) = sw_out w
        @ concat (map (\<lambda>g. HeartbeatSockets g (s_ID (sw_svc w)) (go_get [] groups g) # map notify_dead (dead_of hb groups g)) gs)"
proof (induction gs arbitrary: w)
  case Nil
  then show ?case by (simp add: closes_refl)
next
  case (Cons g gs)
  let ?w1 = "svc_emit (HeartbeatSockets g (s_ID (sw_svc w)) (go_get [] groups g)) w"
  let ?w2 = "heartbeat_gateway hb now groups g w"
  have w2: "?w2 = fold (heartbeat_dead now) (dead_of hb groups g) ?w1"
    by (simp add: heartbeat_gateway_def dead_of_def Let_def)
  have ok1: "svc_ok ?w1" using Cons.prems by (simp add: svc_ok_emit)
  note F = fold_heartbeat_dead [OF ok1, where dead = "dead_of hb groups g" and now = now, folded w2]
  have c: "closes (set (dead_of hb groups g)) w ?w2"
    using closes_trans [OF closes_emit [OF closes_refl [OF Cons.prems]]] F by (metis Un_empty_left svc_effect.distinct(3))
  then have ok2: "svc_ok ?w2" and "s_ID (sw_svc ?w2) = s_ID (sw_svc w)"
    by (auto simp: closes_def dest: svc_config_sel)
  with Cons.IH [OF ok2] F closes_trans [OF c] show ?case by fastforce
qed

lemma group_fold:
  fixes gw :: "string \<Rightarrow> string"
  defines "body \<equiv> \<lambda>s m. AList.update (gw s) (go_get [] m (gw s) @ [s]) m"
  shows "go_get [] (fold body ss m) g = go_get [] m g @ filter (\<lambda>s. gw s = g) ss"
    and "go_has (fold body ss m) g \<longleftrightarrow> go_has m g \<or> g \<in> gw ` set ss"
    and "gomap_ok m \<Longrightarrow> gomap_ok (fold body ss m)"
  by (induction ss arbitrary: m) (auto simp: body_def)

text \<open>The open sockets that belong to a gateway.\<close>

definition sockets_of :: "('p, 'v) sworld \<Rightarrow> string \<Rightarrow> string set" where
  "sockets_of w g = {s. \<exists>a. map_of (s_connections (sw_svc w)) s = Some a \<and> conn_gatewayID (sw_heap w a) = g}"

lemma group_by_gateway_sockets:
  assumes "svc_ok w" "range_ok rg" "groups = group_by_gateway w (rg 0 (gomap_keys (s_connections (sw_svc w))))"
  shows "distinct (go_get [] groups g)" "set (go_get [] groups g) = sockets_of w g"
    "set (gomap_keys groups) = {g. sockets_of w g \<noteq> {}}" "distinct (gomap_keys groups)"
proof -
  let ?m = "s_connections (sw_svc w)" and ?ss = "rg 0 (gomap_keys (s_connections (sw_svc w)))"
  let ?gw = "\<lambda>s. conn_gatewayID (sw_heap w (go_get 0 ?m s))"
  have groups: "groups = fold (\<lambda>s m. AList.update (?gw s) (go_get [] m (?gw s) @ [s]) m) ?ss []"
    by (simp add: assms(3) group_by_gateway_def GatewayID_def Let_def)
  have ss: "distinct ?ss" "set ?ss = set (gomap_keys ?m)"
    using assms(1,2) by (simp_all add: svc_ok_def gomap_ok_def del: set_map)
  have mem: "s \<in> sockets_of w g \<longleftrightarrow> s \<in> set (gomap_keys ?m) \<and> ?gw s = g" for s g
  proof (cases "map_of ?m s")
    case None
    then have "s \<notin> set (gomap_keys ?m)" by (simp add: map_of_eq_None_iff)
    with None show ?thesis by (simp add: sockets_of_def)
  next
    case (Some a)
    with map_of_in_keys [OF Some] show ?thesis by (simp add: sockets_of_def go_get_def del: set_map)
  qed
  show "distinct (go_get [] groups g)" using ss(1) by (simp add: groups group_fold(1))
  show "set (go_get [] groups g) = sockets_of w g"
    using mem ss(2) by (auto simp: groups group_fold(1) simp del: set_map)
  have "go_has groups g \<longleftrightarrow> sockets_of w g \<noteq> {}" for g
    unfolding groups group_fold(2) ss(2) using mem by (auto simp del: set_map)
  then show "set (gomap_keys groups) = {g. sockets_of w g \<noteq> {}}" by (auto simp: go_has_keys simp del: set_map)
  have "gomap_ok groups" unfolding groups by (rule group_fold(3)) simp
  then show "distinct (gomap_keys groups)" by (simp add: gomap_ok_def)
qed

section \<open>The invariant over all runs\<close>

lemma RouterRead_ok:
  assumes "svc_ok w" "Read pick readErr (sw_heap w a) = Some (r, c)"
  shows "svc_ok (w\<lparr>sw_heap := (sw_heap w)(a := c)\<rparr>)"
proof (cases r)
  case (Inl e)
  with assms show ?thesis using Read_Inl [of pick readErr "sw_heap w a" e c] by simp
next
  case (Inr msg)
  with assms show ?thesis using Read_Inr [of pick readErr "sw_heap w a" msg c] svc_ok_mailbox by auto
qed

lemma handleGatewayAnnounce_ok: "svc_ok w \<Longrightarrow> svc_ok (handleGatewayAnnounce name ids w)"
  by (simp add: handleGatewayAnnounce_def Let_def doAnnounce_ok)

lemma svc_Write_ok: "svc_ok w \<Longrightarrow> a < sw_next w \<Longrightarrow> svc_ok (snd (svc_Write send msg a w))"
  by (simp add: svc_Write_eq Let_def svc_HandleClose_ok)

lemma svc_step_ok:
  assumes "svc_ok w" "range_ok rg" "svc_step rg ev w = Some w'"
  shows "svc_ok w'"
proof (cases ev)
  case (ServiceMessage readers pick gatewayID s info msg)
  with assms show ?thesis using handleServiceMessage_ok by fastforce
next
  case (RouterRead a pick readErr)
  with assms show ?thesis using RouterRead_ok by (auto split: if_splits)
qed (use assms in \<open>auto simp: handleGatewayAnnounce_ok closeConnection_ok svc_Write_ok pruneStaleResources_ok
    heartbeatConnections_ok closeAllConnections_ok split: if_splits\<close>)

interpretation svc: invariant_machine svc_new svc_next svc_ok
proof
  show "svc_ok w" if "svc_new w" for w :: "('a, 'b) sworld"
    using that by (simp add: svc_new_def svc_ok_def handled_def List.map_filter_simps)
  show "svc_ok w'" if "svc_ok w" "svc_next w w'" for w w' :: "('a, 'b) sworld"
    using that(2,1) by cases (auto intro: svc_step_ok)
qed

definition sample_svc :: "(string, nat) sworld" where
  "sample_svc = \<lparr>sw_heap = (\<lambda>_. NewConnection '''' '''' \<lparr>ci_Headers = [], ci_RemoteAddr = ''''\<rparr> 0), sw_next = 0,
     sw_svc = NewService ''chat'' ''A'' (Some [''/chat'']) 10 30 5 64, sw_out = []\<rparr>"

definition sample_info :: ConnectionInfo where
  "sample_info = \<lparr>ci_Headers = [], ci_RemoteAddr = ''10.0.0.1''\<rparr>"

text \<open>The service after one message on \<open>s1\<close> through the gateway G.\<close>

definition sample_svc1 :: "(string, nat) sworld" where
  "sample_svc1 = the (handleServiceMessage 0 True ''G'' ''s1'' sample_info (sample_msg 1) sample_svc)"

lemma sample_svc_new: "svc_new sample_svc"
  by (simp add: svc_new_def sample_svc_def NewService_def)

lemma sample_svc1_step: "svc_next sample_svc sample_svc1"
proof -
  have "handleServiceMessage 0 True ''G'' ''s1'' sample_info (sample_msg 1) sample_svc \<noteq> None" by code_simp
  then have "svc_step rg_id (ServiceMessage 0 True ''G'' ''s1'' sample_info (sample_msg 1)) sample_svc = Some sample_svc1"
    by (auto simp: sample_svc1_def)
  then show ?thesis by (rule svc_next [OF range_ok_id])
qed

lemma sample_svc1_ok: "svc_ok sample_svc1"
  using svc.steps_inv [OF r_into_rtranclp [of svc_next, OF sample_svc1_step] svc.init_inv [OF sample_svc_new]] .

section \<open>Properties\<close>

text \<open>
  C19. At every moment of every run of a service (messages, closures, failed writes, heartbeats,
  prunes, stops, under any range order) the table and the connections agree: every entry is an open
  connection with the entry's socket ID, every open connection is in the table, so none is leaked, no
  socket is both open and recorded as closed, and each connection was handed to the router exactly
  once, in the order of creation.
\<close>

theorem service_reachable_ok:
  assumes "svc_new w0" and "svc_next\<^sup>*\<^sup>* w0 w"
  shows "(map_of (s_connections (sw_svc w)) s = Some a \<longleftrightarrow>
        a < sw_next w \<and> conn_socketID (sw_heap w a) = s \<and> \<not> conn_canceled (sw_heap w a))
    \<and> (go_has (s_closedSockets (sw_svc w)) s \<longrightarrow> \<not> go_has (s_connections (sw_svc w)) s)
    \<and> handled w = [0..<sw_next w]"
proof -
  have ok: "svc_ok w" using assms by (rule svc.reachable_inv)
  then show ?thesis
    using svc_okD(3) [OF ok, of s a] svc_okD(4) [OF ok, of s] svc_okD(5-7) [OF ok] by (auto simp: go_has_def)
qed

theorem service_reachable_ok_witness:
  "map_of (s_connections (sw_svc sample_svc1)) ''s1'' = Some 0 \<and> \<not> conn_canceled (sw_heap sample_svc1 0)"
proof -
  have m: "map_of (s_connections (sw_svc sample_svc1)) ''s1'' = Some 0" by code_simp
  from service_reachable_ok [OF sample_svc_new r_into_rtranclp [of svc_next, OF sample_svc1_step], of "''s1''" 0] m
  show ?thesis by blast
qed

text \<open>
  C20. A heartbeat round asks each gateway that has open sockets exactly once, about exactly its
  sockets; it closes and reports every socket the gateway calls dead, in order, and all sockets of a
  gateway that cannot be reached; no other connection is touched.
\<close>

theorem heartbeat_closes_dead:
  assumes "svc_ok w" and "range_ok rg" and "w' = heartbeatConnections hb rg now w"
  shows "\<exists>gws socks dead.
    distinct gws \<and> set gws = {g. sockets_of w g \<noteq> {}}
    \<and> (\<forall>g. distinct (socks g) \<and> set (socks g) = sockets_of w g)
    \<and> (\<forall>g. dead g = (case hb g (socks g) of None \<Rightarrow> socks g | Some d \<Rightarrow> d))
    \<and> sw_out w' = sw_out w
        @ concat (map (\<lambda>g. HeartbeatSockets g (s_ID (sw_svc w)) (socks g) # map notify_dead (dead g)) gws)
    \<and> closes (\<Union>g\<in>set gws. set (dead g)) w w'"
proof -
  define groups where "groups = group_by_gateway w (rg 0 (gomap_keys (s_connections (sw_svc w))))"
  note gr = group_by_gateway_sockets [OF assms(1,2) groups_def]
  let ?gws = "rg 1 (gomap_keys groups)"
  have "w' = fold (heartbeat_gateway hb now groups) ?gws w"
    by (simp add: assms(3) heartbeatConnections_def groups_def Let_def)
  moreover have "distinct ?gws" "set ?gws = {g. sockets_of w g \<noteq> {}}"
    using gr(3,4) assms(2) by (simp_all del: set_map)
  ultimately show ?thesis
    using fold_heartbeat_gateway [OF assms(1), where hb = hb and groups = groups and now = now and gs = ?gws] gr(1,2)
    by (intro exI [of _ ?gws] exI [of _ "go_get [] groups"] exI [of _ "dead_of hb groups"])
      (auto simp: dead_of_def)
qed

theorem heartbeat_closes_dead_witness:
  "go_has (s_closedSockets (sw_svc (heartbeatConnections (\<lambda>_ _. None) rg_id (\<lambda>_. 7) sample_svc1))) ''s1''"
proof -
  let ?w' = "heartbeatConnections (\<lambda>_ _. None) rg_id (\<lambda>_. 7) sample_svc1"
  have "map_of (s_connections (sw_svc sample_svc1)) ''s1'' = Some 0" "conn_gatewayID (sw_heap sample_svc1 0) = ''G''"
    by code_simp+
  then have s: "''s1'' \<in> sockets_of sample_svc1 ''G''" by (simp add: sockets_of_def)
  from heartbeat_closes_dead [OF sample_svc1_ok range_ok_id refl, of "\<lambda>_ _. None" "\<lambda>_. 7"]
  have "closes (\<Union> (sockets_of sample_svc1 ` {g. sockets_of sample_svc1 g \<noteq> {}})) sample_svc1 ?w'" by auto
  with s show ?thesis by (auto simp: closes_def)
qed

text \<open>
  Events that can happen while the record of a closed socket has to be kept: no prune runs later than
  \<open>limit\<close>, and no clock goes back behind \<open>t\<close>.
\<close>

fun within_ttl :: "int \<Rightarrow> int \<Rightarrow> ('p, 'v) svc_event \<Rightarrow> bool" where
  "within_ttl t limit (SocketClosed now s status reason) \<longleftrightarrow> t \<le> now"
| "within_ttl t limit (Heartbeat hb now) \<longleftrightarrow> (\<forall>s. t \<le> now s)"
| "within_ttl t limit (PruneResources now) \<longleftrightarrow> now \<le> limit"
| "within_ttl t limit _ \<longleftrightarrow> True"

inductive svc_next_within :: "int \<Rightarrow> int \<Rightarrow> ('p, 'v) sworld \<Rightarrow> ('p, 'v) sworld \<Rightarrow> bool" for t limit where
  svc_next_within: "range_ok rg \<Longrightarrow> within_ttl t limit ev \<Longrightarrow> svc_step rg ev w = Some w' \<Longrightarrow> svc_next_within t limit w w'"

definition closed_since :: "int \<Rightarrow> string \<Rightarrow> ('p, 'v) sworld \<Rightarrow> bool" where
  "closed_since t s w \<longleftrightarrow> (\<exists>t'\<ge>t. map_of (s_closedSockets (sw_svc w)) s = Some t')"

lemma closed_since_dead:
  "closed_since t s w \<Longrightarrow> svc_ok w \<Longrightarrow> \<forall>x. t \<le> now x \<Longrightarrow> closed_since t s (heartbeat_dead now x w)"
  by (auto simp: closed_since_def heartbeat_dead_def closeConnection_effect)

lemma closed_since_fold:
  assumes "\<And>x w. svc_ok w \<Longrightarrow> closed_since t s w \<Longrightarrow> svc_ok (f x w) \<and> closed_since t s (f x w)"
  shows "svc_ok w \<Longrightarrow> closed_since t s w \<Longrightarrow> svc_ok (fold f xs w) \<and> closed_since t s (fold f xs w)"
  using assms by (induction xs arbitrary: w) auto

lemma closed_since_heartbeat:
  assumes "closed_since t s w" "svc_ok w" "\<forall>x. t \<le> now x"
  shows "closed_since t s (heartbeatConnections hb rg now w)"
proof -
  have dead: "svc_ok (heartbeat_dead now x w) \<and> closed_since t s (heartbeat_dead now x w)"
    if "svc_ok w" "closed_since t s w" for x and w :: "('p, 'v) sworld"
    using that assms(3) by (simp add: heartbeat_dead_ok closed_since_dead)
  have "svc_ok (heartbeat_gateway hb now groups g w) \<and> closed_since t s (heartbeat_gateway hb now groups g w)"
    if "svc_ok w" "closed_since t s w" for groups g and w :: "('p, 'v) sworld"
    unfolding heartbeat_gateway_def Let_def
    by (rule closed_since_fold) (use dead that in \<open>simp_all add: svc_ok_emit closed_since_def\<close>)
  with closed_since_fold [of t s "heartbeat_gateway hb now _"] assms(1,2) show ?thesis
    unfolding heartbeatConnections_def Let_def by blast
qed

lemma heartbeat_closes_dead_config:
  assumes "svc_ok w" "range_ok rg"
  shows "svc_config (sw_svc (heartbeatConnections hb rg now w)) = svc_config (sw_svc w)"
  using fold_heartbeat_gateway [OF assms(1)] by (auto simp: heartbeatConnections_def Let_def closes_def)

lemma closeAllConnections_config:
  "svc_config (sw_svc (closeAllConnections rg w)) = svc_config (sw_svc w)"
proof -
  have "svc_config (sw_svc (fold (svc_HandleClose status reason) as v)) = svc_config (sw_svc v)"
    for status reason as and v :: "('a, 'b) sworld"
    by (induction as arbitrary: v) (simp_all add: svc_HandleClose_config)
  then show ?thesis by (simp add: closeAllConnections_def Let_def)
qed

lemma closedSockets_HandleClose:
  "s_closedSockets (sw_svc (svc_HandleClose status reason a w)) = s_closedSockets (sw_svc w)"
  by (simp add: svc_HandleClose_def Let_def split: prod.split)

lemma closedSockets_message:
  "handleServiceMessage readers pick gatewayID s info msg w = Some w' \<Longrightarrow>
    s_closedSockets (sw_svc w') = s_closedSockets (sw_svc w) \<and> svc_config (sw_svc w') = svc_config (sw_svc w)"
  by (auto simp: handleServiceMessage_def ensureConnection_def Let_def split: if_splits option.splits)

lemma closed_since_step:
  assumes "svc_next_within t limit w w'" "closed_since t s w" "svc_ok w"
    and "limit \<le> t + s_ClosedSocketTTL (sw_svc w)"
  shows "closed_since t s w' \<and> svc_ok w' \<and> svc_config (sw_svc w') = svc_config (sw_svc w)"
  using assms(1)
proof cases
  case (svc_next_within rg ev)
  have ok: "svc_ok w'" using assms(3) svc_next_within(1,3) by (rule svc_step_ok)
  have "closed_since t s w' \<and> svc_config (sw_svc w') = svc_config (sw_svc w)"
  proof (cases ev)
    case (ServiceMessage readers pick gatewayID x info msg)
    with svc_next_within(3) have "handleServiceMessage readers pick gatewayID x info msg w = Some w'" by simp
    from closedSockets_message [OF this] assms(2) show ?thesis by (simp add: closed_since_def)
  next
    case (RouterWrite a send msg)
    with svc_next_within(3) assms(2) show ?thesis
      by (auto simp: closed_since_def svc_Write_eq Let_def closedSockets_HandleClose svc_HandleClose_config split: if_splits)
  next
    case (PruneResources now)
    then have w': "w' = pruneStaleResources rg now w" and "now \<le> limit" using svc_next_within by auto
    with assms(2,4) show ?thesis
      using pruneStaleResources_closed [OF assms(3) svc_next_within(1), of now s]
      by (auto simp: closed_since_def) (simp add: pruneStaleResources_def Let_def)
  next
    case (Heartbeat hb now)
    then have w': "w' = heartbeatConnections hb rg now w" and t: "\<forall>x. t \<le> now x" using svc_next_within by auto
    from heartbeat_closes_dead_config [OF assms(3) svc_next_within(1)] closed_since_heartbeat [OF assms(2,3) t]
    show ?thesis by (simp add: w')
  next
    case StopListen
    with svc_next_within(3) assms(2) closeAllConnections_effect [OF assms(3) svc_next_within(1)]
    show ?thesis by (auto simp: closed_since_def closeAllConnections_config)
  qed (use svc_next_within(2,3) assms(2,3) in \<open>auto simp: closed_since_def closeConnection_effect
      handleGatewayAnnounce_def doAnnounce_def Let_def split: if_splits\<close>)
  with ok show ?thesis by simp
qed

text \<open>
  C21. A closed socket does not come back: after a closure at time \<open>t\<close>, every message for the socket
  is dropped and changes nothing, through any events (closures, heartbeats, writes, prunes, other
  messages) up to the time \<open>t\<close> plus the TTL of the record. So a message that was in flight cannot
  open a second connection for it.
\<close>

theorem closed_socket_rejected:
  assumes "svc_ok w" and "(svc_next_within t (t + s_ClosedSocketTTL (sw_svc w)))\<^sup>*\<^sup>* (closeConnection t s status reason w) w'"
  shows "handleServiceMessage readers pick gatewayID s info msg w' = Some w'
    \<and> map_of (s_connections (sw_svc w')) s = None"
proof -
  let ?limit = "t + s_ClosedSocketTTL (sw_svc w)" and ?w = "closeConnection t s status reason w"
  from assms(2) have "closed_since t s w' \<and> svc_ok w' \<and> svc_config (sw_svc w') = svc_config (sw_svc w)"
  proof (induction rule: rtranclp_induct)
    case base
    then show ?case using closeConnection_ok [OF assms(1)]
      by (simp add: closed_since_def closeConnection_effect [OF assms(1)])
  next
    case (step y z)
    then have y: "closed_since t s y" "svc_ok y" "svc_config (sw_svc y) = svc_config (sw_svc w)" by blast+
    then have "?limit \<le> t + s_ClosedSocketTTL (sw_svc y)" using svc_config_sel(2) by force
    from closed_since_step [OF step.hyps(2) y(1,2) this] y(3) show ?case by simp
  qed
  then have "go_has (s_closedSockets (sw_svc w')) s" "svc_ok w'" by (auto simp: closed_since_def go_has_def)
  then show ?thesis
    using svc_okD(4) [of w' s] by (simp add: handleServiceMessage_def ensureConnection_def)
qed

theorem closed_socket_rejected_witness:
  "let w' = pruneStaleResources rg_id 37 (closeConnection 7 ''s1'' StatusGoingAway ''bye'' sample_svc1)
   in handleServiceMessage 0 True ''G'' ''s1'' sample_info (sample_msg 2) w' = Some w'"
proof -
  let ?w = "closeConnection 7 ''s1'' StatusGoingAway ''bye'' sample_svc1"
  have ttl: "s_ClosedSocketTTL (sw_svc sample_svc1) = 30" by code_simp
  have "svc_next_within 7 (7 + s_ClosedSocketTTL (sw_svc sample_svc1)) ?w (pruneStaleResources rg_id 37 ?w)"
    by (rule svc_next_within [where rg = rg_id and ev = "PruneResources 37"]) (simp_all add: ttl)
  from closed_socket_rejected [OF sample_svc1_ok r_into_rtranclp [of "svc_next_within _ _", OF this]]
  show ?thesis by (simp add: Let_def)
qed

text \<open>
  Stopping a service closes every open connection exactly once and leaves the table empty; a
  connection that was closed before keeps the status and the reason it was closed with, and nothing is
  sent to the transport.
\<close>

lemma stop_closes_connections:
  assumes "svc_ok w" and "range_ok rg" and "svc_step rg StopListen w = Some w'"
  shows "s_connections (sw_svc w') = [] \<and> sw_out w' = sw_out w
    \<and> (\<forall>a < sw_next w'. conn_canceled (sw_heap w' a))
    \<and> (\<forall>a < sw_next w. sw_heap w' a = (if conn_once (sw_heap w a) then sw_heap w a
         else closed_conn StatusGoingAway ''Service is stopping'' (sw_heap w a)))"
  using closeAllConnections_effect [OF assms(1,2)] svc_okD(6) [OF assms(1)] assms(3) by auto

lemma stop_closes_connections_witness:
  "\<exists>w'. svc_step rg_id StopListen sample_svc1 = Some w' \<and> conn_canceled (sw_heap w' 0)"
proof -
  obtain w' where w': "svc_step rg_id StopListen sample_svc1 = Some w'" by simp
  from stop_closes_connections [OF sample_svc1_ok range_ok_id w'] have "\<forall>a < sw_next w'. conn_canceled (sw_heap w' a)"
    by blast
  moreover have "map_option sw_next (svc_step rg_id StopListen sample_svc1) = Some 1" by code_simp
  then have "sw_next w' = 1" by (simp only: w' option.map option.inject)
  ultimately show ?thesis using w' by simp
qed

text \<open>
  C23. A failed write silently restarts the connection: when the transport cannot deliver a reply, the
  connection is closed without a record and without telling anyone, so the next message of the same
  socket is served by a new connection, handed to the router anew, with none of the state of the old.
\<close>

theorem write_failure_restarts:
  assumes "svc_ok w" and "map_of (s_connections (sw_svc w)) s = Some a"
    and "send (conn_gatewayID (sw_heap w a)) s reply = Some e"
    and "0 < conn_capacity (NewConnection gatewayID s info (s_MailboxSize (sw_svc w)) :: 'v Connection)"
  shows "let w1 = snd (svc_Write send reply a (w :: ('p, 'v) sworld)) in
    conn_canceled (sw_heap w1 a) \<and> sw_out w1 = sw_out w \<and> \<not> go_has (s_closedSockets (sw_svc w1)) s
    \<and> (\<exists>w2. handleServiceMessage readers True gatewayID s info msg w1 = Some w2
        \<and> map_of (s_connections (sw_svc w2)) s = Some (sw_next w) \<and> sw_next w \<noteq> a
        \<and> sw_out w2 = sw_out w @ [HandleConnection info (sw_next w)]
        \<and> conn_mailbox (sw_heap w2 (sw_next w)) = [msg])"
proof -
  let ?w1 = "snd (svc_Write send reply a w)"
  have a: "a < sw_next w" "conn_socketID (sw_heap w a) = s" "\<not> conn_once (sw_heap w a)"
    using svc_okD(3) [OF assms(1,2)] by auto
  have "\<not> go_has (s_closedSockets (sw_svc w)) s" using svc_okD(4) [OF assms(1), of s] assms(2) by auto
  moreover have w1: "?w1 = set_connections (AList.delete s (s_connections (sw_svc w)))
      (w\<lparr>sw_heap := (sw_heap w)(a := closed_conn StatusInternalError ''Failed to write message to gateway'' (sw_heap w a))\<rparr>)"
    using a assms(3) by (simp add: svc_Write_eq svc_HandleClose_open)
  moreover have "s_MailboxSize (sw_svc ?w1) = s_MailboxSize (sw_svc w)"
    unfolding w1 by (simp add: set_connections_def)
  ultimately show ?thesis
    using a assms(4)
    by (simp add: Let_def handleServiceMessage_def ensureConnection_def HandleMessage_def can_send_def)
      (simp add: NewConnection_def Let_def)
qed

theorem write_failure_restarts_witness:
  "let w1 = snd (svc_Write (\<lambda>_ _ _. Some (ErrOther ''timeout'')) (sample_msg 9) 0 sample_svc1)
   in conn_canceled (sw_heap w1 0) \<and> (\<exists>w2. handleServiceMessage 0 True ''G'' ''s1'' sample_info (sample_msg 2) w1 = Some w2
     \<and> map_of (s_connections (sw_svc w2)) ''s1'' = Some 1)"
proof -
  have m: "map_of (s_connections (sw_svc sample_svc1)) ''s1'' = Some 0" "sw_next sample_svc1 = 1" by code_simp+
  have c: "0 < conn_capacity (NewConnection ''G'' ''s1'' sample_info (s_MailboxSize (sw_svc sample_svc1)) :: nat Connection)"
    by code_simp
  from write_failure_restarts [OF sample_svc1_ok m(1), where send = "\<lambda>_ _ _. Some (ErrOther ''timeout'')", OF refl c,
      where reply = "sample_msg 9" and readers = 0 and msg = "sample_msg 2"] m(2)
  show ?thesis by (auto simp: Let_def)
qed

end
