(* ===== verification/RunLoops.thy ===== *)
theory RunLoops
  imports Descriptors
begin

text \<open>
  The blocking calls \<open>Gateway.Connect\<close> and \<open>Service.Listen\<close> as the sequence of what they do. Each
  step that can fail takes its outcome from an environment; the errgroup of the pumping goroutines is
  an environment value too, the first error its goroutines return. The deferred calls come at the
  end, in the reverse of the order in which they were deferred.
\<close>

section \<open>Steps\<close>

datatype run_effect =
    BeginRun
  | NewIndex
  | Subscribe string
  | Serve string
  | StartLoop string
  | AnnounceSelf
  | MarkReady
  | WaitGroup
  | Interrupt
  | CloseIndex
  | CloseAllSockets
  | CloseAllConnections
  | EndRun

record run_env =
  env_transport :: bool
  env_begin :: "go_error option"
  env_subscribe :: "string \<Rightarrow> go_error option"
  env_announce :: "go_error option"
  env_group :: "go_error option"

text \<open>The loop over the streams: its steps, and the error that stops it.\<close>

fun subscribe_all :: "(string \<Rightarrow> go_error option) \<Rightarrow> string list \<Rightarrow> run_effect list \<times> go_error option" where
  "subscribe_all subscribe [] = ([], None)"
| "subscribe_all subscribe (name # names) =
     (case subscribe name of
        Some err \<Rightarrow> ([Subscribe name], Some (ErrWrapped name err))
      | None \<Rightarrow> (case subscribe_all subscribe names of
          (fx, err) \<Rightarrow> (Subscribe name # Serve name # fx, err)))"

text \<open>The closure \<open>finish\<close>: interrupt the run, wait for the group, keep the first error.\<close>

definition finish_run :: "run_env \<Rightarrow> go_error option \<Rightarrow> run_effect list \<times> go_error option" where
  "finish_run env err =
     ([Interrupt, WaitGroup], if env_group env \<noteq> None \<and> err = None then env_group env else err)"

section \<open>Gateway.Connect\<close>

definition gateway_streams :: "string list" where
  "gateway_streams = [''service announcements'', ''gateway messages'', ''socket closures'', ''socket heartbeats'']"

definition Connect :: "run_env \<Rightarrow> run_effect list \<times> go_error option" where
  "Connect env =
     (if \<not> env_transport env then ([], Some ErrNoTransport)
      else case env_begin env of
        Some err \<Rightarrow> ([BeginRun], Some err)
      | None \<Rightarrow>
          (let (body, err) =
             (case subscribe_all (env_subscribe env) gateway_streams of
                (fx, Some err) \<Rightarrow> (case finish_run env (Some err) of (gx, r) \<Rightarrow> (fx @ gx, r))
              | (fx, None) \<Rightarrow>
                  (let fx = fx @ [StartLoop ''announce'', StartLoop ''prune'', AnnounceSelf]
                   in case env_announce env of
                        Some err \<Rightarrow> (case finish_run env (Some err) of (gx, r) \<Rightarrow> (fx @ gx, r))
                      | None \<Rightarrow> (case finish_run env (env_group env) of
                          (gx, r) \<Rightarrow> (fx @ [MarkReady, WaitGroup] @ gx, r))))
           in (BeginRun # NewIndex # body @ [CloseIndex, CloseAllSockets, EndRun], err)))"

section \<open>Service.Listen\<close>

definition service_streams :: "string list" where
  "service_streams = [''gateway announcements'', ''service messages'', ''socket closures'']"

definition Listen :: "run_env \<Rightarrow> run_effect list \<times> go_error option" where
  "Listen env =
     (if \<not> env_transport env then ([], Some ErrNoTransport)
      else case env_begin env of
        Some err \<Rightarrow> ([BeginRun], Some err)
      | None \<Rightarrow>
          (let (body, err) =
             (case subscribe_all (env_subscribe env) service_streams of
                (fx, Some err) \<Rightarrow> (case finish_run env (Some err) of (gx, r) \<Rightarrow> (fx @ gx, r))
              | (fx, None) \<Rightarrow>
                  (let fx = fx @ [StartLoop ''prune'', StartLoop ''heartbeat'', AnnounceSelf]
                   in case env_announce env of
                        Some err \<Rightarrow> (case finish_run env (Some err) of (gx, r) \<Rightarrow> (fx @ gx, r))
                      | None \<Rightarrow> (case finish_run env (env_group env) of
                          (gx, r) \<Rightarrow> (fx @ [MarkReady, WaitGroup] @ gx, r))))
           in (BeginRun # body @ [CloseAllConnections, EndRun], err)))"

section \<open>Facts about the stream loop\<close>

lemma subscribe_all_error:
  "snd (subscribe_all sub names) = map_option (\<lambda>n. ErrWrapped n (the (sub n))) (find (\<lambda>n. sub n \<noteq> None) names)"
  by (induction names) (auto split: option.split prod.split)

lemma subscribe_all_ok: "snd (subscribe_all sub names) = None \<longleftrightarrow> (\<forall>n\<in>set names. sub n = None)"
  by (induction names) (auto split: option.split prod.split)

lemma subscribe_all_effects:
  "set (fst (subscribe_all sub names)) \<subseteq> range Subscribe \<union> range Serve"
  "Serve n \<in> set (fst (subscribe_all sub names)) \<longleftrightarrow> Subscribe n \<in> set (fst (subscribe_all sub names)) \<and> sub n = None"
  "Subscribe n \<in> set (fst (subscribe_all sub names)) \<longleftrightarrow>
     n \<in> set (takeWhile (\<lambda>n. sub n = None) names) \<or> find (\<lambda>n. sub n \<noteq> None) names = Some n"
  by (induction names) (auto split: option.split prod.split)

definition all_up :: "run_env \<Rightarrow> string list \<Rightarrow> bool" where
  "all_up env names \<longleftrightarrow> (\<forall>n\<in>set names. env_subscribe env n = None) \<and> env_announce env = None"

text \<open>The shape of the part between \<open>begin\<close> and the deferred calls.\<close>

definition run_body_ok :: "run_env \<Rightarrow> string list \<Rightarrow> run_effect list \<Rightarrow> bool" where
  "run_body_ok env names body \<longleftrightarrow>
     (\<forall>n. Serve n \<in> set body \<longleftrightarrow> Subscribe n \<in> set body \<and> env_subscribe env n = None)
     \<and> (\<forall>n. Subscribe n \<in> set body \<longleftrightarrow> n \<in> set (takeWhile (\<lambda>n. env_subscribe env n = None) names)
          \<or> find (\<lambda>n. env_subscribe env n \<noteq> None) names = Some n)
     \<and> (MarkReady \<in> set body \<longleftrightarrow> all_up env names)
     \<and> set body \<inter> {BeginRun, NewIndex, Interrupt, CloseIndex, CloseAllSockets, CloseAllConnections, EndRun} = {}"

definition run_result :: "run_env \<Rightarrow> string list \<Rightarrow> go_error option" where
  "run_result env names = (case find (\<lambda>n. env_subscribe env n \<noteq> None) names of
       Some n \<Rightarrow> Some (ErrWrapped n (the (env_subscribe env n)))
     | None \<Rightarrow> (if env_announce env \<noteq> None then env_announce env else env_group env))"

lemma body_ok:
  assumes "subscribe_all (env_subscribe env) names = (fx, err)" "set gx \<inter> (range Subscribe \<union> range Serve) = {}"
    and "set gx \<inter> {BeginRun, NewIndex, Interrupt, CloseIndex, CloseAllSockets, CloseAllConnections, EndRun} = {}"
    and "MarkReady \<in> set gx \<longleftrightarrow> all_up env names"
  shows "run_body_ok env names (fx @ gx)"
  using subscribe_all_effects [where sub = "env_subscribe env" and names = names] assms
  unfolding run_body_ok_def by (auto simp: disjoint_iff)

lemma subscribe_result:
  assumes "subscribe_all (env_subscribe env) names = (fx, err)"
  shows "err = map_option (\<lambda>n. ErrWrapped n (the (env_subscribe env n))) (find (\<lambda>n. env_subscribe env n \<noteq> None) names)"
    "err = None \<longleftrightarrow> (\<forall>n\<in>set names. env_subscribe env n = None)"
  using subscribe_all_error [of "env_subscribe env" names] subscribe_all_ok [of "env_subscribe env" names] assms
  by simp_all

lemma Connect_shape:
  assumes "env_transport env" "env_begin env = None"
  shows "\<exists>body. Connect env = (BeginRun # NewIndex # body @ [Interrupt, WaitGroup, CloseIndex, CloseAllSockets, EndRun],
      run_result env gateway_streams) \<and> run_body_ok env gateway_streams body"
proof -
  obtain fx err where s: "subscribe_all (env_subscribe env) gateway_streams = (fx, err)" by fastforce
  note R = subscribe_result [OF s]
  show ?thesis
  proof (cases err)
    case (Some e)
    then have "run_body_ok env gateway_streams (fx @ [])" using R(2) by (intro body_ok [OF s]) (auto simp: all_up_def)
    then show ?thesis using assms s Some R(1)
      by (auto simp: Connect_def finish_run_def run_result_def)
  next
    case None
    then have up: "\<forall>n\<in>set gateway_streams. env_subscribe env n = None" using R(2) by blast
    let ?gx = "[StartLoop ''announce'', StartLoop ''prune'', AnnounceSelf]"
    show ?thesis
    proof (cases "env_announce env")
      case (Some e)
      have "run_body_ok env gateway_streams (fx @ ?gx)"
        using Some by (intro body_ok [OF s]) (auto simp: all_up_def)
      then show ?thesis using assms s None Some R(1)
        by (auto simp: Connect_def finish_run_def run_result_def Let_def)
    next
      case ann: None
      have "run_body_ok env gateway_streams (fx @ ?gx @ [MarkReady, WaitGroup])"
        using ann up by (intro body_ok [OF s]) (auto simp: all_up_def)
      then show ?thesis using assms s None ann R(1)
        by (auto simp: Connect_def finish_run_def run_result_def Let_def)
    qed
  qed
qed

lemma Listen_shape:
  assumes "env_transport env" "env_begin env = None"
  shows "\<exists>body. Listen env = (BeginRun # body @ [Interrupt, WaitGroup, CloseAllConnections, EndRun],
      run_result env service_streams) \<and> run_body_ok env service_streams body"
proof -
  obtain fx err where s: "subscribe_all (env_subscribe env) service_streams = (fx, err)" by fastforce
  note R = subscribe_result [OF s]
  show ?thesis
  proof (cases err)
    case (Some e)
    then have "run_body_ok env service_streams (fx @ [])" using R(2) by (intro body_ok [OF s]) (auto simp: all_up_def)
    then show ?thesis using assms s Some R(1)
      by (auto simp: Listen_def finish_run_def run_result_def)
  next
    case None
    then have up: "\<forall>n\<in>set service_streams. env_subscribe env n = None" using R(2) by blast
    let ?gx = "[StartLoop ''prune'', StartLoop ''heartbeat'', AnnounceSelf]"
    show ?thesis
    proof (cases "env_announce env")
      case (Some e)
      have "run_body_ok env service_streams (fx @ ?gx)"
        using Some by (intro body_ok [OF s]) (auto simp: all_up_def)
      then show ?thesis using assms s None Some R(1)
        by (auto simp: Listen_def finish_run_def run_result_def Let_def)
    next
      case ann: None
      have "run_body_ok env service_streams (fx @ ?gx @ [MarkReady, WaitGroup])"
        using ann up by (intro body_ok [OF s]) (auto simp: all_up_def)
      then show ?thesis using assms s None ann R(1)
        by (auto simp: Listen_def finish_run_def run_result_def Let_def)
    qed
  qed
qed

section \<open>Properties\<close>


text \<open>
  \<open>Listen\<close> cleans up in the same way: the connections are closed after all goroutines have ended
  and before the lifecycle is released, whatever fails; streams, readiness and the result are as for
  the gateway.
\<close>

lemma Listen_cleans_up:
  "if env_transport env \<and> env_begin env = None
   then \<exists>body. Listen env = (BeginRun # body @ [Interrupt, WaitGroup, CloseAllConnections, EndRun],
      run_result env service_streams) \<and> run_body_ok env service_streams body
   else set (fst (Listen env)) \<subseteq> {BeginRun} \<and> snd (Listen env) =
      (if \<not> env_transport env then Some ErrNoTransport else env_begin env)"
  using Listen_shape [of env] by (auto simp: Listen_def split: option.splits)

end
