(* ===== verification/Dispatch.thy ===== *)
theory Dispatch
  imports Prelude Machines
begin

text \<open>
  The per-socket dispatcher of the NATS transport, \<open>dispatch.go\<close>: bounded queues of work, one worker
  goroutine per socket with pending work. The critical sections are functions; the goroutines are
  composed in a step relation.
\<close>

section \<open>The dispatcher\<close>

record 'w socketDispatcher =
  queueSize :: nat
  queues :: "(string, 'w list) gomap"
  wg :: nat

definition newSocketDispatcher :: "nat \<Rightarrow> 'w socketDispatcher" where
  "newSocketDispatcher n = \<lparr>queueSize = n, queues = [], wg = 0\<rparr>"

text \<open>
  The result of \<open>dispatch\<close>: whether the work was accepted (if not, the caller's \<open>onOverflow\<close> runs),
  and whether a worker was started.
\<close>

definition dispatch :: "string \<Rightarrow> 'w \<Rightarrow> 'w socketDispatcher \<Rightarrow> bool \<times> bool \<times> 'w socketDispatcher" where
  "dispatch socketID work d =
     (let queue = go_get [] (queues d) socketID; active = go_has (queues d) socketID
      in if length queue \<ge> queueSize d then (False, False, d)
         else
           let d1 = d\<lparr>queues := AList.update socketID (queue @ [work]) (queues d)\<rparr>
           in if \<not> active then (True, True, d1\<lparr>wg := wg d1 + 1\<rparr>) else (True, False, d1))"

text \<open>One critical section of \<open>run\<close>: the work taken from the queue, \<open>None\<close> to return.\<close>

definition run_take :: "string \<Rightarrow> 'w socketDispatcher \<Rightarrow> 'w option \<times> 'w socketDispatcher" where
  "run_take socketID d =
     (case go_get [] (queues d) socketID of
        [] \<Rightarrow> (None, d\<lparr>queues := AList.delete socketID (queues d)\<rparr>)
      | work # rest \<Rightarrow> (Some work, d\<lparr>queues := AList.update socketID rest (queues d)\<rparr>))"

text \<open>The deferred \<open>wg.Done()\<close>; a negative counter panics, which is \<open>None\<close>.\<close>

definition wg_Done :: "'w socketDispatcher \<Rightarrow> 'w socketDispatcher option" where
  "wg_Done d = (if wg d = 0 then None else Some (d\<lparr>wg := wg d - 1\<rparr>))"

definition wait_returns :: "'w socketDispatcher \<Rightarrow> bool" where
  "wait_returns d \<longleftrightarrow> wg d = 0"

section \<open>Workers\<close>

datatype 'w worker = Looping | Working 'w | Exiting

text \<open>
  \<open>ds_accepted\<close>, \<open>ds_started\<close> and \<open>ds_finished\<close> record the work in the order of these events; the
  goroutines are a multiset, so nothing in the model keeps two workers of a socket apart.
\<close>

record 'w dsys =
  ds_d :: "'w socketDispatcher"
  ds_workers :: "(string \<times> 'w worker) multiset"
  ds_accepted :: "(string \<times> 'w) list"
  ds_started :: "(string \<times> 'w) list"
  ds_finished :: "(string \<times> 'w) list"
  ds_panicked :: bool

inductive ds_work :: "'w dsys \<Rightarrow> 'w dsys \<Rightarrow> bool" where
  ds_take: "ds_workers s = add_mset (socketID, Looping) ws \<Longrightarrow> run_take socketID (ds_d s) = (Some work, d)
     \<Longrightarrow> ds_work s (s\<lparr>ds_d := d, ds_workers := add_mset (socketID, Working work) ws,
          ds_started := ds_started s @ [(socketID, work)]\<rparr>)"
| ds_return: "ds_workers s = add_mset (socketID, Looping) ws \<Longrightarrow> run_take socketID (ds_d s) = (None, d)
     \<Longrightarrow> ds_work s (s\<lparr>ds_d := d, ds_workers := add_mset (socketID, Exiting) ws\<rparr>)"
| ds_finish: "ds_workers s = add_mset (socketID, Working work) ws
     \<Longrightarrow> ds_work s (s\<lparr>ds_workers := add_mset (socketID, Looping) ws,
          ds_finished := ds_finished s @ [(socketID, work)]\<rparr>)"
| ds_exit: "ds_workers s = add_mset (socketID, Exiting) ws
     \<Longrightarrow> ds_work s (case wg_Done (ds_d s) of
          None \<Rightarrow> s\<lparr>ds_panicked := True\<rparr> | Some d \<Rightarrow> s\<lparr>ds_d := d, ds_workers := ws\<rparr>)"

inductive ds_step :: "'w dsys \<Rightarrow> 'w dsys \<Rightarrow> bool" where
  ds_dispatch: "dispatch socketID work (ds_d s) = (accepted, spawned, d)
     \<Longrightarrow> ds_step s (s\<lparr>ds_d := d,
          ds_workers := (if spawned then add_mset (socketID, Looping) (ds_workers s) else ds_workers s),
          ds_accepted := (if accepted then ds_accepted s @ [(socketID, work)] else ds_accepted s)\<rparr>)"
| ds_worker: "ds_work s t \<Longrightarrow> ds_step s t"

definition ds_new :: "nat \<Rightarrow> 'w dsys" where
  "ds_new n = \<lparr>ds_d = newSocketDispatcher n, ds_workers = {#}, ds_accepted = [], ds_started = [],
     ds_finished = [], ds_panicked = False\<rparr>"

section \<open>The invariant\<close>

definition of_socket :: "string \<Rightarrow> (string \<times> 'w) list \<Rightarrow> 'w list" where
  "of_socket s xs = map snd (filter (\<lambda>x. fst x = s) xs)"

lemma of_socket_simps [simp]:
  "of_socket s [] = []" "of_socket s (xs @ ys) = of_socket s xs @ of_socket s ys"
  "of_socket s [(x, w)] = (if x = s then [w] else [])"
  by (auto simp: of_socket_def)

definition live_workers :: "string \<Rightarrow> (string \<times> 'w worker) multiset \<Rightarrow> 'w worker multiset" where
  "live_workers s ws = image_mset snd {#x \<in># ws. fst x = s \<and> snd x \<noteq> Exiting#}"

lemma live_workers_simps [simp]:
  "live_workers s {#} = {#}"
  "live_workers s (add_mset (x, st) ws) =
     (if x = s \<and> st \<noteq> Exiting then add_mset st (live_workers s ws) else live_workers s ws)"
  by (auto simp: live_workers_def)

text \<open>The work a socket's worker is executing.\<close>

definition in_hand :: "'w worker multiset \<Rightarrow> 'w list" where
  "in_hand ws = (if \<exists>w. ws = {#Working w#} then [THE w. ws = {#Working w#}] else [])"

lemma in_hand_simps [simp]:
  "in_hand {#} = []" "in_hand {#Looping#} = []" "in_hand {#Working w#} = [w]"
  by (auto simp: in_hand_def)

definition sock_ok :: "'w dsys \<Rightarrow> string \<Rightarrow> bool" where
  "sock_ok s x \<longleftrightarrow> size (live_workers x (ds_workers s)) = (if go_has (queues (ds_d s)) x then 1 else 0)
     \<and> length (go_get [] (queues (ds_d s)) x) \<le> queueSize (ds_d s)
     \<and> of_socket x (ds_accepted s) = of_socket x (ds_started s) @ go_get [] (queues (ds_d s)) x
     \<and> of_socket x (ds_started s) = of_socket x (ds_finished s) @ in_hand (live_workers x (ds_workers s))"

definition ds_ok :: "'w dsys \<Rightarrow> bool" where
  "ds_ok s \<longleftrightarrow> \<not> ds_panicked s \<and> wg (ds_d s) = size (ds_workers s) \<and> (\<forall>x. sock_ok s x)"

lemma ds_okI:
  assumes "\<not> ds_panicked s" "wg (ds_d s) = size (ds_workers s)" "sock_ok s x" "\<And>y. y \<noteq> x \<Longrightarrow> sock_ok s y"
  shows "ds_ok s"
  using assms unfolding ds_ok_def by metis

lemma ds_okD: "ds_ok s \<Longrightarrow> sock_ok s x" "ds_ok s \<Longrightarrow> wg (ds_d s) = size (ds_workers s)" "ds_ok s \<Longrightarrow> \<not> ds_panicked s"
  by (simp_all add: ds_ok_def)

lemma live_single:
  assumes "ds_ok s" "ds_workers s = add_mset (x, st) ws" "st \<noteq> Exiting"
  shows "live_workers x ws = {#}" "go_has (queues (ds_d s)) x"
  using ds_okD(1) [OF assms(1), of x] assms(2,3) by (auto simp: sock_ok_def split: if_splits)

lemma go_get_absent: "\<not> go_has m k \<Longrightarrow> go_get z m k = z"
  by (simp add: go_has_def go_get_def)

lemma ds_dispatch_ok:
  assumes "ds_ok s" "dispatch x work (ds_d s) = (accepted, spawned, d)"
    "t = s\<lparr>ds_d := d, ds_workers := (if spawned then add_mset (x, Looping) (ds_workers s) else ds_workers s),
      ds_accepted := (if accepted then ds_accepted s @ [(x, work)] else ds_accepted s)\<rparr>"
  shows "ds_ok t"
proof (cases "length (go_get [] (queues (ds_d s)) x) \<ge> queueSize (ds_d s)")
  case True
  with assms show ?thesis by (auto simp: dispatch_def Let_def)
next
  case room: False
  show ?thesis
  proof (cases "go_has (queues (ds_d s)) x")
    case True
    with room assms(2) have d: "d = (ds_d s)\<lparr>queues := AList.update x (go_get [] (queues (ds_d s)) x @ [work]) (queues (ds_d s))\<rparr>"
      "accepted" "\<not> spawned" by (auto simp: dispatch_def Let_def)
    show ?thesis
    proof (rule ds_okI [where x = x])
      show "sock_ok t x" using ds_okD(1) [OF assms(1), of x] room True by (simp add: assms(3) d sock_ok_def)
      show "sock_ok t y" if "y \<noteq> x" for y
        using ds_okD(1) [OF assms(1), of y] that by (simp add: assms(3) d sock_ok_def)
    qed (use assms(1) d in \<open>simp_all add: assms(3) ds_ok_def\<close>)
  next
    case False
    then have none: "live_workers x (ds_workers s) = {#}" "go_get [] (queues (ds_d s)) x = []"
      using ds_okD(1) [OF assms(1), of x] by (simp_all add: sock_ok_def go_get_absent)
    with room False assms(2) have d: "d = (ds_d s)\<lparr>queues := AList.update x [work] (queues (ds_d s)), wg := wg (ds_d s) + 1\<rparr>"
      "accepted" "spawned" by (auto simp: dispatch_def Let_def)
    show ?thesis
    proof (rule ds_okI [where x = x])
      show "sock_ok t x" using ds_okD(1) [OF assms(1), of x] room none by (simp add: assms(3) d sock_ok_def)
      show "sock_ok t y" if "y \<noteq> x" for y
        using ds_okD(1) [OF assms(1), of y] that by (simp add: assms(3) d sock_ok_def)
    qed (use assms(1) d in \<open>simp_all add: assms(3) ds_ok_def\<close>)
  qed
qed

lemma ds_work_ok:
  assumes "ds_work s t" "ds_ok s"
  shows "ds_ok t"
  using assms(1)
proof cases
  case (ds_take x ws work d)
  note L = live_single [OF assms(2) ds_take(2)]
  obtain rest where q: "go_get [] (queues (ds_d s)) x = work # rest"
    "d = (ds_d s)\<lparr>queues := AList.update x rest (queues (ds_d s))\<rparr>"
    using ds_take(3) by (auto simp: run_take_def split: list.splits)
  show ?thesis
  proof (rule ds_okI [where x = x])
    show "sock_ok t x" using ds_okD(1) [OF assms(2), of x] L ds_take q by (simp add: sock_ok_def)
    show "sock_ok t y" if "y \<noteq> x" for y
      using ds_okD(1) [OF assms(2), of y] that ds_take q by (simp add: sock_ok_def)
  qed (use assms(2) ds_take q in \<open>simp_all add: ds_ok_def\<close>)
next
  case (ds_return x ws d)
  note L = live_single [OF assms(2) ds_return(2)]
  have q: "go_get [] (queues (ds_d s)) x = []" "d = (ds_d s)\<lparr>queues := AList.delete x (queues (ds_d s))\<rparr>"
    using ds_return(3) by (auto simp: run_take_def split: list.splits)
  show ?thesis
  proof (rule ds_okI [where x = x])
    show "sock_ok t x" using ds_okD(1) [OF assms(2), of x] L ds_return q by (simp add: sock_ok_def)
    show "sock_ok t y" if "y \<noteq> x" for y
      using ds_okD(1) [OF assms(2), of y] that ds_return q by (simp add: sock_ok_def)
  qed (use assms(2) ds_return q in \<open>simp_all add: ds_ok_def\<close>)
next
  case (ds_finish x work ws)
  note L = live_single [OF assms(2) ds_finish(2)]
  show ?thesis
  proof (rule ds_okI [where x = x])
    show "sock_ok t x" using ds_okD(1) [OF assms(2), of x] L ds_finish by (simp add: sock_ok_def)
    show "sock_ok t y" if "y \<noteq> x" for y
      using ds_okD(1) [OF assms(2), of y] that ds_finish by (simp add: sock_ok_def)
  qed (use assms(2) ds_finish in \<open>simp_all add: ds_ok_def\<close>)
next
  case (ds_exit x ws)
  with assms(2) show ?thesis by (simp add: ds_ok_def wg_Done_def sock_ok_def)
qed

interpretation disp: invariant_machine "\<lambda>s. s = ds_new n" ds_step ds_ok for n
proof
  show "ds_ok s" if "s = ds_new n" for s :: "'a dsys"
    using that by (simp add: ds_ok_def sock_ok_def ds_new_def newSocketDispatcher_def)
  show "ds_ok t" if "ds_ok s" "ds_step s t" for s t :: "'a dsys"
    using that(2,1) by cases (auto intro: ds_dispatch_ok ds_work_ok)
qed

section \<open>Draining\<close>

text \<open>Every step of a worker makes this smaller: queued work weighs most, then a worker's own state.\<close>

fun worker_weight :: "'w worker \<Rightarrow> nat" where
  "worker_weight Looping = 2"
| "worker_weight (Working w) = 3"
| "worker_weight Exiting = 1"

definition drain_measure :: "'w dsys \<Rightarrow> nat" where
  "drain_measure s = 3 * sum_list (map (\<lambda>x. length (snd x)) (queues (ds_d s)))
     + sum_mset (image_mset (\<lambda>x. worker_weight (snd x)) (ds_workers s))"

lemma sum_list_update:
  "k \<in> set (gomap_keys m) \<Longrightarrow> gomap_ok m \<Longrightarrow>
    sum_list (map (\<lambda>x. length (snd x)) (AList.update k v m)) + length (go_get [] m k) =
    sum_list (map (\<lambda>x. length (snd x)) m) + length v"
proof (induction m)
  case (Cons x m)
  show ?case
  proof (cases "fst x = k")
    case True
    then have "go_get [] (x # m) k = snd x" by (cases x) (simp add: go_get_def)
    with True show ?thesis by (cases x) simp
  next
    case False
    then have "go_get [] (x # m) k = go_get [] m k" by (cases x) (simp add: go_get_def)
    with False Cons show ?thesis by (cases x) (auto simp: gomap_ok_def)
  qed
qed simp

lemma sum_list_delete:
  "sum_list (map (\<lambda>x. length (snd x)) (AList.delete k m)) \<le> sum_list (map (\<lambda>x. length (snd x)) m)"
  by (induction m) (auto simp: AList.delete_eq)

lemma drain_decreases:
  assumes "ds_work s t" "ds_ok s" "gomap_ok (queues (ds_d s))"
  shows "drain_measure t < drain_measure s \<and> gomap_ok (queues (ds_d t))"
  using assms(1)
proof cases
  case (ds_take x ws work d)
  obtain rest where q: "go_get [] (queues (ds_d s)) x = work # rest"
    "d = (ds_d s)\<lparr>queues := AList.update x rest (queues (ds_d s))\<rparr>"
    using ds_take(3) by (auto simp: run_take_def split: list.splits)
  have "x \<in> set (gomap_keys (queues (ds_d s)))"
    using live_single(2) [OF assms(2) ds_take(2)] by (simp add: go_has_keys)
  from sum_list_update [OF this assms(3), of rest] q ds_take assms(3) show ?thesis by (simp add: drain_measure_def)
next
  case (ds_return x ws d)
  have "d = (ds_d s)\<lparr>queues := AList.delete x (queues (ds_d s))\<rparr>"
    using ds_return(3) by (auto simp: run_take_def split: list.splits)
  with ds_return assms(3) sum_list_delete [of x "queues (ds_d s)"] show ?thesis by (simp add: drain_measure_def)
next
  case (ds_finish x work ws)
  with assms(3) show ?thesis by (simp add: drain_measure_def)
next
  case (ds_exit x ws)
  with assms(2,3) show ?thesis by (simp add: drain_measure_def wg_Done_def ds_ok_def)
qed

lemma work_enabled:
  assumes "ds_workers s \<noteq> {#}"
  shows "\<exists>t. ds_work s t"
proof -
  from assms obtain x ws where x: "ds_workers s = add_mset x ws" by (meson multiset_cases)
  obtain k st where "x = (k, st)" by fastforce
  with x have st: "ds_workers s = add_mset (k, st) ws" by simp
  show ?thesis
  proof (cases st)
    case Looping
    obtain r d where "run_take k (ds_d s) = (r, d)" by fastforce
    with st Looping show ?thesis by (cases r) (metis ds_return, metis ds_take)
  next
    case (Working w)
    with st show ?thesis by (metis ds_finish)
  next
    case Exiting
    with st show ?thesis by (metis ds_exit)
  qed
qed

section \<open>Properties\<close>

lemma dispatch_gomap: "gomap_ok (queues d) \<Longrightarrow> gomap_ok (queues (snd (snd (dispatch x work d))))"
  by (simp add: dispatch_def Let_def)

lemma ds_reachable_gomap:
  assumes "ds_step\<^sup>*\<^sup>* (ds_new n) s"
  shows "ds_ok s \<and> gomap_ok (queues (ds_d s)) \<and> queueSize (ds_d s) = n"
proof -
  have ok: "ds_ok t" if "ds_step\<^sup>*\<^sup>* (ds_new n) t" for t :: "'a dsys" using disp.reachable_inv [OF refl that] .
  from assms have "gomap_ok (queues (ds_d s)) \<and> queueSize (ds_d s) = n"
  proof (induction rule: rtranclp_induct)
    case base
    show ?case by (simp add: ds_new_def newSocketDispatcher_def)
  next
    case (step y z)
    from step.hyps(2) show ?case
    proof cases
      case (ds_dispatch x work accepted spawned d)
      then show ?thesis using step.IH dispatch_gomap [of "ds_d y" x work]
        by (auto simp: dispatch_def Let_def split: if_splits)
    next
      case ds_worker
      from drain_decreases [OF this ok [OF step.hyps(1)]] step.IH have "gomap_ok (queues (ds_d z))" by blast
      moreover from ds_worker have "queueSize (ds_d z) = queueSize (ds_d y)"
        by cases (auto simp: run_take_def wg_Done_def split: list.splits option.splits)
      ultimately show ?thesis using step.IH by simp
    qed
  qed
  with ok [OF assms] show ?thesis by blast
qed

text \<open>
  C25. The dispatcher keeps the order of each socket and loses nothing: under every interleaving of
  dispatches and workers, the work accepted for a socket is the work finished, followed by the one
  item in hand, followed by the queue, in the order of acceptance; at most one worker serves a socket,
  a queue never exceeds its bound, and the wait group never goes negative.
\<close>

theorem dispatcher_fifo:
  assumes "ds_step\<^sup>*\<^sup>* (ds_new n) s"
  shows "of_socket x (ds_accepted s) =
      of_socket x (ds_finished s) @ in_hand (live_workers x (ds_workers s)) @ go_get [] (queues (ds_d s)) x
    \<and> size (live_workers x (ds_workers s)) \<le> 1 \<and> length (go_get [] (queues (ds_d s)) x) \<le> n
    \<and> \<not> ds_panicked s"
  using ds_reachable_gomap [OF assms] ds_okD(1) [of s x] by (auto simp: ds_ok_def sock_ok_def)

text \<open>A run that accepts two items of a socket and starts the first.\<close>

definition ds_sample :: "nat dsys" where
  "ds_sample = \<lparr>ds_d = \<lparr>queueSize = 2, queues = [(''s1'', [8])], wg = 1\<rparr>,
     ds_workers = {#(''s1'', Working 7)#}, ds_accepted = [(''s1'', 7), (''s1'', 8)],
     ds_started = [(''s1'', 7)], ds_finished = [], ds_panicked = False\<rparr>"

lemma ds_sample_reachable: "ds_step\<^sup>*\<^sup>* (ds_new 2) ds_sample"
proof -
  let ?s1 = "(ds_new 2)\<lparr>ds_d := \<lparr>queueSize = 2, queues = [(''s1'', [7])], wg = 1\<rparr>,
     ds_workers := {#(''s1'', Looping)#}, ds_accepted := [(''s1'', 7)]\<rparr> :: nat dsys"
  let ?s2 = "?s1\<lparr>ds_d := \<lparr>queueSize = 2, queues = [(''s1'', [7, 8])], wg = 1\<rparr>, ds_accepted := [(''s1'', 7), (''s1'', 8)]\<rparr>"
  have "dispatch ''s1'' 7 (ds_d (ds_new 2)) = (True, True, \<lparr>queueSize = 2, queues = [(''s1'', [7])], wg = 1\<rparr>)"
    "dispatch ''s1'' 8 (ds_d ?s1) = (True, False, \<lparr>queueSize = 2, queues = [(''s1'', [7, 8])], wg = 1\<rparr>)"
    "run_take ''s1'' (ds_d ?s2) = (Some 7, \<lparr>queueSize = 2, queues = [(''s1'', [8])], wg = 1\<rparr>)"
    by (simp_all add: dispatch_def run_take_def ds_new_def newSocketDispatcher_def go_get_def go_has_def)
  note d = this
  have "ds_step (ds_new 2) ?s1" using ds_dispatch [OF d(1)] by (simp add: ds_new_def)
  moreover have "ds_step ?s1 ?s2" using ds_dispatch [OF d(2)] by (simp add: ds_new_def)
  moreover have "ds_step ?s2 ds_sample"
    using ds_worker [OF ds_take [OF _ d(3), of "{#}"]] by (simp add: ds_sample_def ds_new_def)
  ultimately show ?thesis by auto
qed

theorem dispatcher_fifo_witness:
  "of_socket ''s1'' (ds_accepted ds_sample) = of_socket ''s1'' (ds_finished ds_sample)
    @ in_hand (live_workers ''s1'' (ds_workers ds_sample)) @ go_get [] (queues (ds_d ds_sample)) ''s1''"
  using dispatcher_fifo [OF ds_sample_reachable, of "''s1''"] by blast

text \<open>
  C26. \<open>wait\<close> returns, and only when all work is done: once nothing is dispatched any more, the workers
  stop after finitely many steps in whatever order they run (each step decreases a measure, and while
  the counter is positive some worker can move), and when the counter is zero, everything accepted for
  any socket has been finished.
\<close>

theorem dispatcher_drains:
  assumes "ds_step\<^sup>*\<^sup>* (ds_new n) s"
  shows "(if wait_returns (ds_d s)
      then of_socket x (ds_finished s) = of_socket x (ds_accepted s) \<and> queues (ds_d s) = []
      else \<exists>t. ds_work s t)
    \<and> (\<forall>t. \<not> ds_work s t \<or> drain_measure t < drain_measure s)"
proof -
  have ok: "ds_ok s" "gomap_ok (queues (ds_d s))" using ds_reachable_gomap [OF assms] by blast+
  have "of_socket x (ds_finished s) = of_socket x (ds_accepted s) \<and> queues (ds_d s) = []"
    if "wait_returns (ds_d s)"
  proof -
    from that ok(1) have none: "ds_workers s = {#}" by (simp add: wait_returns_def ds_ok_def)
    have "\<not> go_has (queues (ds_d s)) y" for y
      using ds_okD(1) [OF ok(1), of y] none by (auto simp: sock_ok_def split: if_splits)
    then have "queues (ds_d s) = []" by (cases "queues (ds_d s)") (auto simp: go_has_keys)
    with none ds_okD(1) [OF ok(1), of x] show ?thesis by (simp add: sock_ok_def)
  qed
  moreover have "\<exists>t. ds_work s t" if "\<not> wait_returns (ds_d s)"
    using that ok(1) by (intro work_enabled) (auto simp: wait_returns_def ds_ok_def)
  ultimately show ?thesis using drain_decreases [OF _ ok] by auto
qed

theorem dispatcher_drains_witness: "\<exists>t. ds_work ds_sample t"
proof -
  have "\<not> wait_returns (ds_d ds_sample)" by (simp add: wait_returns_def ds_sample_def)
  with dispatcher_drains [OF ds_sample_reachable] show ?thesis by simp
qed

end
