(* ===== verification/Namespace.thy ===== *)
theory Namespace
  imports Descriptors
begin

text \<open>
  The NATS subjects of \<open>namespace.go\<close>. A Go string is a sequence of bytes, here the characters of a
  HOL string; ranging over it decodes UTF-8 and yields byte offsets, while \<open>[]rune(str)\<close> is indexed by
  rune. An index out of range panics, which is \<open>None\<close>.
\<close>

section \<open>UTF-8\<close>

definition continuation :: "nat \<Rightarrow> bool" where
  "continuation b \<longleftrightarrow> 128 \<le> b \<and> b \<le> 191"

text \<open>The bounds of the second byte for each first byte of a two, three or four byte sequence.\<close>

definition second_ok :: "nat \<Rightarrow> nat \<Rightarrow> bool" where
  "second_ok b0 b1 \<longleftrightarrow>
     (if b0 = 224 then 160 \<le> b1 \<and> b1 \<le> 191
      else if b0 = 237 then 128 \<le> b1 \<and> b1 \<le> 159
      else if b0 = 240 then 144 \<le> b1 \<and> b1 \<le> 191
      else if b0 = 244 then 128 \<le> b1 \<and> b1 \<le> 143
      else continuation b1)"

text \<open>The first rune of a nonempty byte sequence and its width; an invalid byte is U+FFFD of width 1.\<close>

definition decode_rune :: "nat list \<Rightarrow> nat \<times> nat" where
  "decode_rune bs = (case bs of
       [] \<Rightarrow> (65533, 1)
     | b0 # rest \<Rightarrow>
         if b0 < 128 then (b0, 1)
         else if 194 \<le> b0 \<and> b0 \<le> 223 then
           (case rest of
              b1 # _ \<Rightarrow> if second_ok b0 b1 then ((b0 - 192) * 64 + (b1 - 128), 2) else (65533, 1)
            | _ \<Rightarrow> (65533, 1))
         else if 224 \<le> b0 \<and> b0 \<le> 239 then
           (case rest of
              b1 # b2 # _ \<Rightarrow> if second_ok b0 b1 \<and> continuation b2
                then ((b0 - 224) * 4096 + (b1 - 128) * 64 + (b2 - 128), 3) else (65533, 1)
            | _ \<Rightarrow> (65533, 1))
         else if 240 \<le> b0 \<and> b0 \<le> 244 then
           (case rest of
              b1 # b2 # b3 # _ \<Rightarrow> if second_ok b0 b1 \<and> continuation b2 \<and> continuation b3
                then ((b0 - 240) * 262144 + (b1 - 128) * 4096 + (b2 - 128) * 64 + (b3 - 128), 4)
                else (65533, 1)
            | _ \<Rightarrow> (65533, 1))
         else (65533, 1))"

lemma decode_rune_width: "0 < snd (decode_rune bs)"
  by (simp add: decode_rune_def split: list.split)

text \<open>The pairs that \<open>for i, r := range str\<close> yields, from byte offset \<open>i\<close> on.\<close>

function range_runes :: "nat \<Rightarrow> nat list \<Rightarrow> (nat \<times> nat) list" where
  "range_runes i bs = (if bs = [] then []
     else case decode_rune bs of (r, width) \<Rightarrow> (i, r) # range_runes (i + width) (drop width bs))"
  by pat_completeness auto
termination
proof (relation "measure (\<lambda>(i, bs). length bs)")
  fix i :: nat and bs x y
  assume "bs \<noteq> []" "(x, y) = decode_rune bs"
  then show "((i + y, drop y bs), i, bs) \<in> measure (\<lambda>(i, bs). length bs)"
    using decode_rune_width [of bs] by (metis diff_less in_measure length_drop length_greater_0_conv prod.case snd_conv)
qed simp

declare range_runes.simps [simp del]

section \<open>Subjects\<close>

definition go_bytes :: "string \<Rightarrow> nat list" where
  "go_bytes str = map of_char str"

definition unicode_ToLower_ascii :: "nat \<Rightarrow> nat" where
  "unicode_ToLower_ascii r = r + 32"

text \<open>The \<open>switch\<close>: what is appended for the rune \<open>r\<close> after the rune \<open>pr\<close>; 45 is the dash.\<close>

definition format_rune :: "nat \<Rightarrow> nat \<Rightarrow> nat list" where
  "format_rune pr r =
     (if 65 \<le> r \<and> r \<le> 90 then
        (if 97 \<le> pr \<and> pr \<le> 122 then [45, unicode_ToLower_ascii r] else [r])
      else if 97 \<le> r \<and> r \<le> 122 then [r]
      else if 48 \<le> r \<and> r \<le> 57 then [r]
      else if r = 45 then [45]
      else if r = 95 then [45]
      else if r = 46 then [46]
      else if r = 42 then [42]
      else [])"

fun format_loop :: "nat list \<Rightarrow> (nat \<times> nat) list \<Rightarrow> nat list option" where
  "format_loop runes [] = Some []"
| "format_loop runes ((i, r) # rest) =
     (let pr = (if i \<ge> 1 then go_index runes (i - 1) else Some 0)
      in case pr of
           None \<Rightarrow> None
         | Some pr \<Rightarrow> map_option (append (format_rune pr r)) (format_loop runes rest))"

definition formatForNamespace :: "string \<Rightarrow> string option" where
  "formatForNamespace str =
     (let irs = range_runes 0 (go_bytes str)
      in map_option (map char_of) (format_loop (map snd irs) irs))"

definition NatsSubjectNamespace :: string where
  "NatsSubjectNamespace = ''eurus''"

fun namespace_chunks :: "string list \<Rightarrow> string list option" where
  "namespace_chunks [] = Some []"
| "namespace_chunks (str # strs) =
     (if str \<noteq> '''' then
        (case formatForNamespace str of
           None \<Rightarrow> None
         | Some chunk \<Rightarrow> map_option (Cons chunk) (namespace_chunks strs))
      else namespace_chunks strs)"

text \<open>\<open>strings.Join(chunks, ".")\<close>.\<close>

fun strings_Join :: "string list \<Rightarrow> string" where
  "strings_Join [] = ''''"
| "strings_Join [c] = c"
| "strings_Join (c # d # cs) = c @ ''.'' @ strings_Join (d # cs)"

definition namespace :: "string list \<Rightarrow> string option" where
  "namespace strValues =
     map_option (\<lambda>chunks. strings_Join (NatsSubjectNamespace # chunks)) (namespace_chunks strValues)"

section \<open>ASCII strings\<close>

text \<open>On ASCII text byte offsets and rune indices agree, so nothing can panic.\<close>

definition ascii :: "string \<Rightarrow> bool" where
  "ascii s \<longleftrightarrow> (\<forall>c\<in>set s. of_char c < (128::nat))"

lemma range_runes_ascii:
  "\<forall>b\<in>set bs. b < 128 \<Longrightarrow> range_runes i bs = zip [i..<i + length bs] bs"
proof (induction bs arbitrary: i)
  case Nil
  then show ?case by (simp add: range_runes.simps)
next
  case (Cons b bs)
  then have "range_runes i (b # bs) = (i, b) # range_runes (i + 1) bs"
    by (subst range_runes.simps) (simp add: decode_rune_def)
  moreover have "[i..<i + length (b # bs)] = i # [Suc i..<Suc i + length bs]"
    using upt_conv_Cons [of i "Suc i + length bs"] by simp
  ultimately show ?case using Cons by simp
qed

text \<open>The text a subject gets for an ASCII string: each character after its predecessor.\<close>

fun format_ascii :: "nat \<Rightarrow> nat list \<Rightarrow> nat list" where
  "format_ascii pr [] = []"
| "format_ascii pr (b # bs) = format_rune pr b @ format_ascii b bs"

lemma format_loop_ascii:
  assumes "k + length bs = length all" "drop k all = bs"
  shows "format_loop all (zip [k..<length all] bs) = Some (format_ascii (if k = 0 then 0 else all ! (k - 1)) bs)"
  using assms
proof (induction bs arbitrary: k)
  case Nil
  then show ?case by simp
next
  case (Cons b bs)
  then have "k < length all" by simp
  from Cons_nth_drop_Suc [OF this] Cons.prems(2) this
  have k: "k < length all" "b = all ! k" "drop (Suc k) all = bs" by simp_all
  then have "[k..<length all] = k # [Suc k..<length all]" by (simp add: upt_conv_Cons)
  with Cons.IH [of "Suc k"] Cons.prems(1) k show ?case by (auto simp: go_index_def)
qed

lemma formatForNamespace_ascii:
  assumes "ascii s"
  shows "formatForNamespace s = Some (map char_of (format_ascii 0 (go_bytes s)))"
proof -
  let ?bs = "go_bytes s"
  have "range_runes 0 ?bs = zip [0..<length ?bs] ?bs"
    using range_runes_ascii [of ?bs 0] assms by (simp add: ascii_def go_bytes_def)
  then show ?thesis
    using format_loop_ascii [of 0 ?bs ?bs] by (simp add: formatForNamespace_def Let_def)
qed

lemma formatForNamespace_text:
  assumes "ascii s" "format_ascii 0 (go_bytes s) = go_bytes t"
  shows "formatForNamespace s = Some t"
  using assms by (simp add: formatForNamespace_ascii) (simp add: go_bytes_def comp_def)

section \<open>Properties\<close>

definition plain :: "nat \<Rightarrow> bool" where
  "plain b \<longleftrightarrow> 65 \<le> b \<and> b \<le> 90 \<or> 97 \<le> b \<and> b \<le> 122 \<or> 48 \<le> b \<and> b \<le> 57 \<or> b = 45 \<or> b = 95"

lemma format_rune_plain:
  "plain b \<Longrightarrow> format_rune pr b \<noteq> [] \<and> (\<forall>x\<in>set (format_rune pr b). plain x \<and> x \<noteq> 95)"
  by (auto simp: plain_def format_rune_def unicode_ToLower_ascii_def)

lemma format_ascii_plain:
  "\<forall>b\<in>set bs. plain b \<Longrightarrow> (\<forall>x\<in>set (format_ascii pr bs). plain x \<and> x \<noteq> 95)
    \<and> (bs \<noteq> [] \<longrightarrow> format_ascii pr bs \<noteq> [])"
  by (induction bs arbitrary: pr) (use format_rune_plain in fastforce)+

lemma idChars_plain: "c \<in> set idChars \<Longrightarrow> plain (of_char c)"
  by (auto simp: idChars_def plain_def)

text \<open>
  C27. The subjects of generated identifiers are well formed: for a non-empty ID over the alphabet of
  \<open>generateID\<close>, \<open>namespace\<close> does not panic, and the ID becomes exactly one non-empty token without the
  separator "." or a wildcard, so a subscription for one ID can never match a subtree.
\<close>

theorem namespace_generated:
  assumes "set iid \<subseteq> set idChars" and "iid \<noteq> ''''"
  shows "\<exists>token. token \<noteq> '''' \<and> CHR ''.'' \<notin> set token \<and> CHR ''*'' \<notin> set token \<and> CHR ''>'' \<notin> set token
    \<and> formatForNamespace iid = Some token
    \<and> namespace [''gateway'', iid, ''message''] = Some (''eurus.gateway.'' @ token @ ''.message'')
    \<and> namespace [''service'', iid, ''message''] = Some (''eurus.service.'' @ token @ ''.message'')
    \<and> namespace [''gateway'', iid, ''socket-heartbeat''] = Some (''eurus.gateway.'' @ token @ ''.socket-heartbeat'')"
proof -
  have plain: "\<forall>b\<in>set (go_bytes iid). plain b" using assms(1) idChars_plain by (auto simp: go_bytes_def)
  then have "ascii iid" by (fastforce simp: ascii_def go_bytes_def plain_def)
  then have f: "formatForNamespace iid = Some (map char_of (format_ascii 0 (go_bytes iid)))" (is "_ = Some ?t")
    by (rule formatForNamespace_ascii)
  note F = format_ascii_plain [OF plain, of 0]
  have chars: "plain (of_char c)" if "c \<in> set ?t" for c
  proof -
    from that obtain x where x: "x \<in> set (format_ascii 0 (go_bytes iid))" "c = char_of x" by auto
    with F have p: "plain x" by auto
    then have "x mod 256 = x" by (intro mod_less) (auto simp: plain_def)
    with p x(2) show ?thesis by (simp add: of_char_of)
  qed
  have "CHR ''.'' \<notin> set ?t" "CHR ''*'' \<notin> set ?t" "CHR ''>'' \<notin> set ?t"
    using chars [of "CHR ''.''"] chars [of "CHR ''*''"] chars [of "CHR ''>''"] by (auto simp: plain_def)
  moreover have "?t \<noteq> ''''" using F assms(2) by (simp add: go_bytes_def)
  moreover have "formatForNamespace ''gateway'' = Some ''gateway''" "formatForNamespace ''service'' = Some ''service''"
    "formatForNamespace ''message'' = Some ''message''"
    "formatForNamespace ''socket-heartbeat'' = Some ''socket-heartbeat''"
    by (rule formatForNamespace_text; simp add: ascii_def go_bytes_def format_rune_def)+
  ultimately show ?thesis
    using f assms(2) by (intro exI [of _ ?t]) (simp add: namespace_def NatsSubjectNamespace_def)
qed

theorem namespace_generated_witness:
  "namespace [''gateway'', ''aB_9'', ''message''] = Some ''eurus.gateway.a-b-9.message''"
proof -
  have "formatForNamespace ''aB_9'' = Some ''a-b-9''"
    by (rule formatForNamespace_text; simp add: ascii_def go_bytes_def format_rune_def unicode_ToLower_ascii_def)
  moreover have "set ''aB_9'' \<subseteq> set idChars" by (simp add: idChars_def)
  ultimately show ?thesis using namespace_generated [of "''aB_9''"] by auto
qed

lemma format_rune_pr: "\<not> (97 \<le> pr \<and> pr \<le> 122) \<Longrightarrow> \<not> (97 \<le> qr \<and> qr \<le> 122) \<Longrightarrow> format_rune pr r = format_rune qr r"
  by (auto simp: format_rune_def)

lemma format_ascii_dash:
  "pr = qr \<or> \<not> (97 \<le> pr \<and> pr \<le> 122) \<and> \<not> (97 \<le> qr \<and> qr \<le> 122) \<Longrightarrow>
    format_ascii pr (map (\<lambda>b. if b = 95 then 45 else b) bs) = format_ascii qr bs"
proof (induction bs arbitrary: pr qr)
  case (Cons b bs)
  have "format_rune pr b = format_rune qr b" using Cons.prems format_rune_pr by blast
  moreover have "format_rune pr 45 = format_rune qr 95" by (simp add: format_rune_def)
  ultimately show ?case using Cons.IH [of 45 95] Cons.IH [of b b] by simp
qed simp

text \<open>
  C28. Distinct identifiers can share a subject: replacing every underscore of an ID by a dash never
  changes its subject (nor does writing a lower-case letter followed by a capital in kebab case), so
  messages for one instance are delivered to the other as well.
\<close>

theorem namespace_collision:
  assumes "ascii s"
  shows "formatForNamespace (map (\<lambda>c. if c = CHR ''_'' then CHR ''-'' else c) s) = formatForNamespace s
    \<and> formatForNamespace ''aB'' = formatForNamespace ''a-b''"
proof -
  let ?s = "map (\<lambda>c. if c = CHR ''_'' then CHR ''-'' else c) s"
  have "ascii ?s" using assms by (auto simp: ascii_def)
  have eq: "(of_char c = (95::nat)) = (c = CHR ''_'')" for c
  proof -
    have "(of_char c = (95::nat)) = (of_char c = (of_char (CHR ''_'') :: nat))" by simp
    then show ?thesis by (simp only: of_char_eq_iff)
  qed
  have "go_bytes ?s = map (\<lambda>b. if b = 95 then 45 else b) (go_bytes s)"
    by (auto simp: go_bytes_def eq)
  then have "formatForNamespace ?s = formatForNamespace s"
    using formatForNamespace_ascii [OF \<open>ascii ?s\<close>] formatForNamespace_ascii [OF assms] format_ascii_dash [of 0 0]
    by simp
  moreover have "formatForNamespace ''aB'' = formatForNamespace ''a-b''"
    by (simp add: formatForNamespace_ascii ascii_def go_bytes_def format_rune_def unicode_ToLower_ascii_def)
  ultimately show ?thesis by blast
qed

theorem namespace_collision_witness: "formatForNamespace ''node-1'' = formatForNamespace ''node_1''"
proof -
  have "ascii ''node_1''" by (simp add: ascii_def)
  from namespace_collision [OF this] show ?thesis by simp
qed


end
