(* ===== verification/Message.thy ===== *)
theory Message
  imports Wire Dispatch Namespace
begin

text \<open>
  Message delivery of the NATS transport: \<open>message.go\<close>, \<open>message-service.go\<close> and
  \<open>message-gateway.go\<close>. The NATS client and msgpack are parameters: a codec gives the bytes of each
  structure, \<open>request subject bytes\<close> is the outcome of a NATS request, and the chunk messages a
  receiver gets are a list of outcomes.
\<close>

section \<open>Structures\<close>

definition MaxChunkSize :: nat where
  "MaxChunkSize = 1024 * 16"

definition slowConsumerReply :: string where
  "slowConsumerReply = ''slow consumer''"

record MessageAck =
  ack_ChunkSubject :: string
  ack_Error :: string

record MessageChunk =
  chunk_Index :: int
  chunk_Data :: "byte list"
  chunk_IsEOF :: bool

record MessageChunkAck =
  cack_Index :: int
  cack_IsEOF :: bool

record ServiceMessageEnvelope =
  se_GatewayID :: string
  se_SocketID :: string
  se_Headers :: "(string, string list) gomap"
  se_RemoteAddr :: string
  se_MessageType :: int
  se_Payload :: "byte list"
  se_Streamed :: bool

record GatewayMessageEnvelope =
  ge_SocketID :: string
  ge_MessageType :: int
  ge_Payload :: "byte list"
  ge_Streamed :: bool

text \<open>\<open>ServiceMessagePayload\<close> and \<open>GatewayMessagePayload\<close> have the same fields.\<close>

record 'v MessagePayload =
  pl_RawData :: "byte list"
  pl_Data :: "byte list"
  pl_Meta :: "(string, 'v) gomap"

text \<open>\<open>msgpack.Marshal\<close> and \<open>msgpack.Unmarshal\<close> for one structure.\<close>

record 'a codec =
  marshal :: "'a \<Rightarrow> go_error + byte list"
  unmarshal :: "byte list \<Rightarrow> go_error + 'a"

definition codec_ok :: "'a codec \<Rightarrow> bool" where
  "codec_ok c \<longleftrightarrow> (\<forall>x bytes. marshal c x = Inr bytes \<longrightarrow> unmarshal c bytes = Inr x)"

lemma codec_okD: "codec_ok c \<Longrightarrow> marshal c x = Inr bytes \<Longrightarrow> unmarshal c bytes = Inr x"
  by (simp add: codec_ok_def)

section \<open>Sending\<close>

definition parseMessageAck :: "MessageAck codec \<Rightarrow> byte list \<Rightarrow> go_error + MessageAck" where
  "parseMessageAck ca data =
     (case unmarshal ca data of
        Inl err \<Rightarrow> Inl err
      | Inr ack \<Rightarrow>
          if ack_Error ack = slowConsumerReply then Inl ErrSlowConsumer
          else if ack_Error ack \<noteq> '''' then Inl (ErrOther (''message rejected: '' @ ack_Error ack))
          else Inr ack)"

definition sendChunk :: "MessageChunk codec \<Rightarrow> MessageChunkAck codec
    \<Rightarrow> (string \<Rightarrow> byte list \<Rightarrow> go_error + byte list) \<Rightarrow> string \<Rightarrow> MessageChunk \<Rightarrow> go_error option" where
  "sendChunk cc cca request chunkSubject chunk =
     (case marshal cc chunk of
        Inl err \<Rightarrow> Some err
      | Inr chunkBytes \<Rightarrow>
          (case request chunkSubject chunkBytes of
             Inl err \<Rightarrow> Some err
           | Inr reply \<Rightarrow> (case unmarshal cca reply of Inl err \<Rightarrow> Some err | Inr _ \<Rightarrow> None)))"

text \<open>
  The loop of \<open>streamChunks\<close>: the chunks passed to \<open>sendChunk\<close> in order, and the first error.
  \<open>send\<close> is \<open>sendChunk\<close> with its connection; chunks differ in their index, so it may fail for some.
\<close>

function stream_loop :: "(MessageChunk \<Rightarrow> go_error option) \<Rightarrow> byte list \<Rightarrow> int \<Rightarrow> nat
    \<Rightarrow> MessageChunk list \<times> go_error option" where
  "stream_loop send payload index offset =
     (if offset < length payload then
        (let e = min (offset + MaxChunkSize) (length payload);
             chunk = \<lparr>chunk_Index = index, chunk_Data = take (e - offset) (drop offset payload), chunk_IsEOF = False\<rparr>
         in case send chunk of
              Some err \<Rightarrow> ([chunk], Some err)
            | None \<Rightarrow> (case stream_loop send payload (index + 1) e of (chunks, r) \<Rightarrow> (chunk # chunks, r)))
      else
        (let chunk = \<lparr>chunk_Index = index, chunk_Data = [], chunk_IsEOF = True\<rparr>
         in ([chunk], send chunk)))"
  by pat_completeness auto
termination
  by (relation "measure (\<lambda>(send, payload, index, offset). length payload - offset)")
    (auto simp: MaxChunkSize_def)

declare stream_loop.simps [simp del]

definition streamChunks :: "(MessageChunk \<Rightarrow> go_error option) \<Rightarrow> byte list \<Rightarrow> MessageChunk list \<times> go_error option" where
  "streamChunks send payload = stream_loop send payload 0 0"

text \<open>
  \<open>sendEnvelope\<close>: the request subjects and bytes in order, the chunks sent, and the error.
  \<open>makeEnvelope\<close> takes the inline payload (empty for nil) and whether it is streamed.
\<close>

definition sendEnvelope :: "'e codec \<Rightarrow> MessageAck codec \<Rightarrow> int
    \<Rightarrow> (string \<Rightarrow> byte list \<Rightarrow> go_error + byte list) \<Rightarrow> (string \<Rightarrow> MessageChunk \<Rightarrow> go_error option)
    \<Rightarrow> string \<Rightarrow> (byte list \<Rightarrow> bool \<Rightarrow> 'e) \<Rightarrow> byte list
    \<Rightarrow> (string \<times> byte list) list \<times> MessageChunk list \<times> go_error option" where
  "sendEnvelope ce ca maxPayload request sendChunk' subject makeEnvelope payloadBytes =
     (case marshal ce (makeEnvelope payloadBytes False) of
        Inl err \<Rightarrow> ([], [], Some err)
      | Inr inlineBytes \<Rightarrow>
          if int (length inlineBytes) \<le> maxPayload then
            ([(subject, inlineBytes)], [],
              case request subject inlineBytes of
                Inl err \<Rightarrow> Some err
              | Inr reply \<Rightarrow> (case parseMessageAck ca reply of Inl err \<Rightarrow> Some err | Inr _ \<Rightarrow> None))
          else
            (case marshal ce (makeEnvelope [] True) of
               Inl err \<Rightarrow> ([], [], Some err)
             | Inr streamedBytes \<Rightarrow>
                 (case request subject streamedBytes of
                    Inl err \<Rightarrow> ([(subject, streamedBytes)], [], Some err)
                  | Inr reply \<Rightarrow>
                      (case parseMessageAck ca reply of
                         Inl err \<Rightarrow> ([(subject, streamedBytes)], [], Some err)
                       | Inr ack \<Rightarrow>
                           if ack_ChunkSubject ack = '''' then
                             ([(subject, streamedBytes)], [],
                               Some (ErrOther ''streamed message ack missing chunk subject''))
                           else
                             (case streamChunks (sendChunk' (ack_ChunkSubject ack)) payloadBytes of
                                (chunks, r) \<Rightarrow> ([(subject, streamedBytes)], chunks, r))))))"

definition payload_of :: "'v SocketMessage \<Rightarrow> 'v MessagePayload" where
  "payload_of msg = \<lparr>pl_RawData = sm_RawData msg, pl_Data = sm_Data msg, pl_Meta = sm_Meta msg\<rparr>"

definition service_envelope :: "string \<Rightarrow> string \<Rightarrow> ConnectionInfo \<Rightarrow> 'v SocketMessage
    \<Rightarrow> byte list \<Rightarrow> bool \<Rightarrow> ServiceMessageEnvelope" where
  "service_envelope gatewayID socketID connInfo msg inlinePayload streamed =
     \<lparr>se_GatewayID = gatewayID, se_SocketID = socketID, se_Headers = ci_Headers connInfo,
      se_RemoteAddr = ci_RemoteAddr connInfo, se_MessageType = sm_Type msg,
      se_Payload = inlinePayload, se_Streamed = streamed\<rparr>"

definition gateway_envelope :: "string \<Rightarrow> 'v SocketMessage \<Rightarrow> byte list \<Rightarrow> bool \<Rightarrow> GatewayMessageEnvelope" where
  "gateway_envelope socketID msg inlinePayload streamed =
     \<lparr>ge_SocketID = socketID, ge_MessageType = sm_Type msg, ge_Payload = inlinePayload, ge_Streamed = streamed\<rparr>"

text \<open>A panic of \<open>namespace\<close> is the result \<open>None\<close>.\<close>

definition nats_MessageService where
  "nats_MessageService cp ce ca maxPayload request sendChunk' serviceID gatewayID socketID connInfo msg =
     (case marshal cp (payload_of msg) of
        Inl err \<Rightarrow> Some ([], [], Some err)
      | Inr payloadBytes \<Rightarrow>
          map_option (\<lambda>subject. sendEnvelope ce ca maxPayload request sendChunk' subject
              (service_envelope gatewayID socketID connInfo msg) payloadBytes)
            (namespace [''service'', serviceID, ''message'']))"

definition nats_MessageGateway where
  "nats_MessageGateway cp ce ca maxPayload request sendChunk' gatewayID socketID msg =
     (case marshal cp (payload_of msg) of
        Inl err \<Rightarrow> Some ([], [], Some err)
      | Inr payloadBytes \<Rightarrow>
          map_option (\<lambda>subject. sendEnvelope ce ca maxPayload request sendChunk' subject
              (gateway_envelope socketID msg) payloadBytes)
            (namespace [''gateway'', gatewayID, ''message'']))"

section \<open>Receiving\<close>

text \<open>
  The loop of \<open>receiveChunks\<close> over the outcomes of \<open>NextMsgWithContext\<close>; the end of the list is the
  deadline. Each message carries its reply subject. The result also has the acks in order;
  \<open>publish\<close> is the error of publishing one.
\<close>

fun receive_loop :: "MessageChunk codec \<Rightarrow> MessageChunkAck codec \<Rightarrow> (string \<Rightarrow> byte list \<Rightarrow> go_error option)
    \<Rightarrow> byte list \<Rightarrow> (go_error + string \<times> byte list) list
    \<Rightarrow> (string \<times> byte list) list \<times> (go_error + byte list)" where
  "receive_loop cc cca publish assembled [] = ([], Inl (ErrOther ''context deadline exceeded''))"
| "receive_loop cc cca publish assembled (Inl err # rest) = ([], Inl err)"
| "receive_loop cc cca publish assembled (Inr (reply, data) # rest) =
     (case unmarshal cc data of
        Inl err \<Rightarrow> ([], Inl err)
      | Inr chunk \<Rightarrow>
          (case marshal cca \<lparr>cack_Index = chunk_Index chunk, cack_IsEOF = chunk_IsEOF chunk\<rparr> of
             Inl err \<Rightarrow> ([], Inl err)
           | Inr ackBytes \<Rightarrow>
               (case publish reply ackBytes of
                  Some err \<Rightarrow> ([], Inl err)
                | None \<Rightarrow>
                    (let assembled' = assembled @ chunk_Data chunk
                     in if chunk_IsEOF chunk then ([(reply, ackBytes)], Inr assembled')
                        else (case receive_loop cc cca publish assembled' rest of
                          (acks, r) \<Rightarrow> ((reply, ackBytes) # acks, r))))))"

text \<open>
  \<open>receiveChunks\<close>: \<open>inbox\<close> is the fresh inbox with the error of subscribing to it. The published
  messages come first in the result.
\<close>

definition receiveChunks :: "MessageAck codec \<Rightarrow> MessageChunk codec \<Rightarrow> MessageChunkAck codec
    \<Rightarrow> (string \<Rightarrow> byte list \<Rightarrow> go_error option) \<Rightarrow> string \<times> go_error option \<Rightarrow> string
    \<Rightarrow> (go_error + string \<times> byte list) list \<Rightarrow> (string \<times> byte list) list \<times> (go_error + byte list)" where
  "receiveChunks ca cc cca publish inbox replySubject incoming =
     (case inbox of
        (_, Some err) \<Rightarrow> ([], Inl err)
      | (chunkSubject, None) \<Rightarrow>
          (case marshal ca \<lparr>ack_ChunkSubject = chunkSubject, ack_Error = ''''\<rparr> of
             Inl err \<Rightarrow> ([], Inl err)
           | Inr ackBytes \<Rightarrow>
               (case publish replySubject ackBytes of
                  Some err \<Rightarrow> ([], Inl err)
                | None \<Rightarrow> (case receive_loop cc cca publish [] incoming of
                    (acks, r) \<Rightarrow> ((replySubject, ackBytes) # acks, r)))))"

text \<open>
  The deliveries: the arguments of the handler call, \<open>None\<close> when the message is dropped. \<open>receive\<close> is
  the result of \<open>receiveChunks\<close> for the message.
\<close>

definition deliverGatewayMessage :: "'v MessagePayload codec \<Rightarrow> (go_error + byte list)
    \<Rightarrow> GatewayMessageEnvelope \<Rightarrow> (string \<times> 'v SocketMessage) option" where
  "deliverGatewayMessage cp receive envelope =
     (case (if ge_Streamed envelope then receive else Inr (ge_Payload envelope)) of
        Inl err \<Rightarrow> None
      | Inr payloadBytes \<Rightarrow>
          (case unmarshal cp payloadBytes of
             Inl err \<Rightarrow> None
           | Inr payload \<Rightarrow>
               Some (ge_SocketID envelope,
                 \<lparr>sm_Type = ge_MessageType envelope, sm_RawData = pl_RawData payload,
                  sm_Data = pl_Data payload, sm_Meta = pl_Meta payload\<rparr>)))"

definition deliverServiceMessage :: "'v MessagePayload codec \<Rightarrow> (go_error + byte list)
    \<Rightarrow> ServiceMessageEnvelope \<Rightarrow> (string \<times> string \<times> ConnectionInfo \<times> 'v SocketMessage) option" where
  "deliverServiceMessage cp receive envelope =
     (case (if se_Streamed envelope then receive else Inr (se_Payload envelope)) of
        Inl err \<Rightarrow> None
      | Inr payloadBytes \<Rightarrow>
          (case unmarshal cp payloadBytes of
             Inl err \<Rightarrow> None
           | Inr payload \<Rightarrow>
               Some (se_GatewayID envelope, se_SocketID envelope,
                 \<lparr>ci_Headers = se_Headers envelope, ci_RemoteAddr = se_RemoteAddr envelope\<rparr>,
                 \<lparr>sm_Type = se_MessageType envelope, sm_RawData = pl_RawData payload,
                  sm_Data = pl_Data payload, sm_Meta = pl_Meta payload\<rparr>)))"

section \<open>The pump\<close>

datatype pump_effect =
    Ack string MessageAck
  | BroadcastClosed string Status string

text \<open>\<open>respondAck\<close> (its publish errors are ignored).\<close>

definition respondAck :: "string \<Rightarrow> MessageAck \<Rightarrow> pump_effect list" where
  "respondAck replySubject ack = (if replySubject = '''' then [] else [Ack replySubject ack])"

text \<open>
  One message of \<open>serveMessages\<close>: the effects, whether a worker was started, and the dispatcher.
  \<open>decode\<close> yields the socket, whether the payload is streamed, and the work.
\<close>

definition serve_message :: "(byte list \<Rightarrow> go_error + string \<times> bool \<times> 'w) \<Rightarrow> string \<Rightarrow> byte list
    \<Rightarrow> 'w socketDispatcher \<Rightarrow> pump_effect list \<times> bool \<times> 'w socketDispatcher" where
  "serve_message decode reply data d =
     (case decode data of
        Inl err \<Rightarrow> (respondAck reply \<lparr>ack_ChunkSubject = '''', ack_Error = ''malformed envelope''\<rparr>, False, d)
      | Inr (socketID, streamed, deliver) \<Rightarrow>
          (case dispatch socketID deliver d of
             (accepted, spawned, d1) \<Rightarrow>
               if \<not> accepted then
                 (BroadcastClosed socketID StatusPolicyViolation ''Slow consumer''
                    # respondAck reply \<lparr>ack_ChunkSubject = '''', ack_Error = slowConsumerReply\<rparr>, spawned, d1)
               else (if \<not> streamed then respondAck reply \<lparr>ack_ChunkSubject = '''', ack_Error = ''''\<rparr> else [],
                     spawned, d1)))"

definition DefaultDispatchQueueSize :: int where
  "DefaultDispatchQueueSize = 128"

definition dispatchQueueSize :: "int \<Rightarrow> int" where
  "dispatchQueueSize configured = (if configured > 0 then configured else DefaultDispatchQueueSize)"

definition new_pump :: "int \<Rightarrow> 'w socketDispatcher" where
  "new_pump configured = newSocketDispatcher (nat (dispatchQueueSize configured))"

end
