(* ===== verification/MessageProps.thy ===== *)
theory MessageProps
  imports Message
begin

text \<open>
  The properties of message delivery over NATS: what the chunk protocol sends and reassembles, the
  round trip of a message in both directions, and what each acknowledgement means to the sender.
\<close>

section \<open>The chunks of a payload\<close>

text \<open>All chunks of a payload from an offset on, when no send fails.\<close>

definition chunks_from :: "byte list \<Rightarrow> int \<Rightarrow> nat \<Rightarrow> MessageChunk list" where
  "chunks_from payload index offset = fst (stream_loop (\<lambda>_. None) payload index offset)"

lemma chunks_from_eq:
  "chunks_from payload index offset =
     (if offset < length payload then
        (let e = min (offset + MaxChunkSize) (length payload)
         in \<lparr>chunk_Index = index, chunk_Data = take (e - offset) (drop offset payload), chunk_IsEOF = False\<rparr>
              # chunks_from payload (index + 1) e)
      else [\<lparr>chunk_Index = index, chunk_Data = [], chunk_IsEOF = True\<rparr>])"
  unfolding chunks_from_def by (subst stream_loop.simps) (simp add: Let_def split: prod.split)

text \<open>With failing sends, the chunks up to the first failure are sent.\<close>

lemma stream_loop_eq:
  "stream_loop send payload index offset =
     (takeWhile (\<lambda>c. send c = None) (chunks_from payload index offset)
        @ (case find (\<lambda>c. send c \<noteq> None) (chunks_from payload index offset) of None \<Rightarrow> [] | Some c \<Rightarrow> [c]),
      case find (\<lambda>c. send c \<noteq> None) (chunks_from payload index offset) of None \<Rightarrow> None | Some c \<Rightarrow> send c)"
proof (induction send payload index offset rule: stream_loop.induct)
  case (1 send payload index offset)
  show ?case
  proof (cases "offset < length payload")
    case True
    let ?e = "min (offset + MaxChunkSize) (length payload)"
    let ?c = "\<lparr>chunk_Index = index, chunk_Data = take (?e - offset) (drop offset payload), chunk_IsEOF = False\<rparr>"
    have cf: "chunks_from payload index offset = ?c # chunks_from payload (index + 1) ?e"
      using True by (subst chunks_from_eq) (simp add: Let_def)
    show ?thesis
      using True "1.IH" [OF True refl refl]
      by (subst stream_loop.simps) (simp add: cf Let_def split: option.split)
  next
    case False
    then have "chunks_from payload index offset = [\<lparr>chunk_Index = index, chunk_Data = [], chunk_IsEOF = True\<rparr>]"
      by (subst chunks_from_eq) simp
    with False show ?thesis by (subst stream_loop.simps) (simp add: Let_def)
  qed
qed

definition chunk_list_ok :: "int \<Rightarrow> MessageChunk list \<Rightarrow> bool" where
  "chunk_list_ok index cs \<longleftrightarrow> cs \<noteq> [] \<and> map chunk_Index cs = map (\<lambda>k. index + int k) [0..<length cs]
     \<and> (\<forall>c\<in>set (butlast cs). \<not> chunk_IsEOF c \<and> chunk_Data c \<noteq> [])
     \<and> chunk_IsEOF (last cs) \<and> chunk_Data (last cs) = []
     \<and> (\<forall>c\<in>set cs. length (chunk_Data c) \<le> MaxChunkSize)"

lemma chunk_list_ok_Cons:
  assumes "chunk_list_ok (index + 1) cs" "chunk_Index c = index" "\<not> chunk_IsEOF c" "chunk_Data c \<noteq> []"
    "length (chunk_Data c) \<le> MaxChunkSize"
  shows "chunk_list_ok index (c # cs)"
proof -
  have "[0..<length (c # cs)] = 0 # map Suc [0..<length cs]"
    by (simp add: upt_conv_Cons map_Suc_upt del: upt_Suc)
  with assms show ?thesis by (auto simp: chunk_list_ok_def comp_def algebra_simps simp del: upt_Suc)
qed

lemma chunks_from_ok:
  "chunk_list_ok index (chunks_from payload index offset)
    \<and> concat (map chunk_Data (chunks_from payload index offset)) = drop offset payload"
proof (induction "length payload - offset" arbitrary: index offset rule: less_induct)
  case less
  show ?case
  proof (cases "offset < length payload")
    case True
    let ?e = "min (offset + MaxChunkSize) (length payload)"
    let ?c = "\<lparr>chunk_Index = index, chunk_Data = take (?e - offset) (drop offset payload), chunk_IsEOF = False\<rparr>"
    have cf: "chunks_from payload index offset = ?c # chunks_from payload (index + 1) ?e"
      using True by (subst chunks_from_eq) (simp add: Let_def)
    have e: "offset < ?e" "?e \<le> length payload" using True by (auto simp: MaxChunkSize_def)
    have IH: "chunk_list_ok (index + 1) (chunks_from payload (index + 1) ?e)"
      "concat (map chunk_Data (chunks_from payload (index + 1) ?e)) = drop ?e payload"
      using less.hyps [of ?e "index + 1"] e True by auto
    have "chunk_list_ok index (?c # chunks_from payload (index + 1) ?e)"
      using IH(1) by (rule chunk_list_ok_Cons) (use e True in auto)
    moreover have "take (?e - offset) (drop offset payload) @ drop ?e payload = drop offset payload"
      using e by (metis add_diff_inverse_nat append_take_drop_id drop_drop le_add_diff_inverse less_imp_le_nat add.commute)
    ultimately show ?thesis unfolding cf using IH(2) by simp
  next
    case False
    then have "chunks_from payload index offset = [\<lparr>chunk_Index = index, chunk_Data = [], chunk_IsEOF = True\<rparr>]"
      by (subst chunks_from_eq) simp
    with False show ?thesis by (simp add: chunk_list_ok_def)
  qed
qed

section \<open>Reassembly\<close>

text \<open>The messages a receiver gets when the sender's chunks arrive in order.\<close>

definition sent_bytes :: "'a codec \<Rightarrow> 'a \<Rightarrow> byte list" where
  "sent_bytes c x = (case marshal c x of Inr bytes \<Rightarrow> bytes | Inl _ \<Rightarrow> [])"

definition arrivals :: "MessageChunk codec \<Rightarrow> (MessageChunk \<Rightarrow> string) \<Rightarrow> MessageChunk list
    \<Rightarrow> (go_error + string \<times> byte list) list" where
  "arrivals cc reply chunks = map (\<lambda>c. Inr (reply c, sent_bytes cc c)) chunks"

definition codec_total :: "'a codec \<Rightarrow> bool" where
  "codec_total c \<longleftrightarrow> (\<forall>x. \<exists>bytes. marshal c x = Inr bytes)"

lemma sent_bytes_unmarshal: "codec_ok c \<Longrightarrow> codec_total c \<Longrightarrow> unmarshal c (sent_bytes c x) = Inr x"
  by (metis codec_okD codec_total_def sent_bytes_def sum.case(2))

lemma receive_loop_chunks:
  assumes "codec_ok cc" "codec_total cc" "codec_total cca"
  shows "chunk_list_ok index cs \<Longrightarrow> snd (receive_loop cc cca (\<lambda>_ _. None) acc (arrivals cc reply cs @ later))
      = Inr (acc @ concat (map chunk_Data cs))
    \<and> map fst (fst (receive_loop cc cca (\<lambda>_ _. None) acc (arrivals cc reply cs @ later))) = map reply cs"
proof (induction cs arbitrary: index acc)
  case Nil
  then show ?case by (simp add: chunk_list_ok_def)
next
  case (Cons c cs)
  obtain b where b: "marshal cca \<lparr>cack_Index = chunk_Index c, cack_IsEOF = chunk_IsEOF c\<rparr> = Inr b"
    using assms(3) by (auto simp: codec_total_def)
  show ?case
  proof (cases cs)
    case Nil
    with Cons.prems b show ?thesis
      using sent_bytes_unmarshal [OF assms(1,2), of c] by (simp add: arrivals_def chunk_list_ok_def)
  next
    case (Cons c' cs')
    have "[0..<length (c # cs)] = 0 # map Suc [0..<length cs]"
      by (simp add: upt_conv_Cons map_Suc_upt del: upt_Suc)
    with Cons.prems Cons have "chunk_list_ok (index + 1) cs" "\<not> chunk_IsEOF c"
      by (auto simp: chunk_list_ok_def comp_def algebra_simps simp del: upt_Suc)
    with Cons.IH [of "index + 1" "acc @ chunk_Data c"] b show ?thesis
      using sent_bytes_unmarshal [OF assms(1,2), of c]
      by (simp add: arrivals_def Let_def case_prod_unfold)
  qed
qed

text \<open>Only the end-of-file chunk ends a transfer: a cut transfer is an error.\<close>

lemma receive_loop_cut:
  assumes "codec_ok cc" "codec_total cc" "codec_total cca"
  shows "\<forall>c\<in>set cs. \<not> chunk_IsEOF c
    \<Longrightarrow> snd (receive_loop cc cca (\<lambda>_ _. None) acc (arrivals cc reply cs)) = Inl (ErrOther ''context deadline exceeded'')"
proof (induction cs arbitrary: acc)
  case Nil
  then show ?case by (simp add: arrivals_def)
next
  case (Cons c cs)
  obtain b where "marshal cca \<lparr>cack_Index = chunk_Index c, cack_IsEOF = chunk_IsEOF c\<rparr> = Inr b"
    using assms(3) by (auto simp: codec_total_def)
  with Cons sent_bytes_unmarshal [OF assms(1,2), of c] show ?case
    by (simp add: arrivals_def Let_def case_prod_unfold)
qed

lemma find_never: "find (\<lambda>_. False) xs = None"
  by (induction xs) auto

lemma streamChunks_total: "streamChunks (\<lambda>_. None) payload = (chunks_from payload 0 0, None)"
  by (simp add: streamChunks_def stream_loop_eq [of "\<lambda>_. None"] find_never takeWhile_eq_all_conv)

lemma chunk_list_ok_prefix:
  assumes "chunk_list_ok i cs" "k < length cs" "c \<in> set (take k cs)"
  shows "\<not> chunk_IsEOF c"
proof -
  have "c \<in> set (butlast cs)"
    using assms(2,3) by (metis Suc_pred' butlast_conv_take less_Suc_eq_le length_pos_if_in_set set_take_subset_set_take
      subsetD take_eq_Nil gr_zeroI list.size(3) not_less0)
  with assms(1) show ?thesis by (auto simp: chunk_list_ok_def)
qed

section \<open>Concrete codecs\<close>

text \<open>A codec from a table of encodings, and one for chunks: they instantiate msgpack in the witnesses.\<close>

definition table_codec :: "('a \<times> byte list) list \<Rightarrow> 'a codec" where
  "table_codec tab =
     \<lparr>marshal = (\<lambda>x. case map_of tab x of None \<Rightarrow> Inl (ErrOther ''unsupported'') | Some b \<Rightarrow> Inr b),
      unmarshal = (\<lambda>b. case map_of (map prod.swap tab) b of None \<Rightarrow> Inl (ErrOther ''malformed'') | Some x \<Rightarrow> Inr x)\<rparr>"

lemma table_codec_ok:
  assumes "distinct (map snd tab)"
  shows "codec_ok (table_codec tab)"
proof -
  have "map_of (map prod.swap tab) b = Some x" if "map_of tab x = Some b" for x b
  proof (rule map_of_is_SomeI)
    show "distinct (map fst (map prod.swap tab))" using assms by (simp add: comp_def prod.swap_def)
    show "(b, x) \<in> set (map prod.swap tab)" using map_of_SomeD [OF that] by force
  qed
  then show ?thesis by (auto simp: codec_ok_def table_codec_def split: option.splits)
qed

definition int_bytes :: "int \<Rightarrow> byte list" where
  "int_bytes i = (if i < 0 then 1 else 0) # replicate (nat \<bar>i\<bar>) 1 @ [0]"

definition bytes_int :: "byte list \<Rightarrow> int" where
  "bytes_int bs = (let n = int (length (takeWhile (\<lambda>b. b = 1) (tl bs))) in if hd bs = 1 then - n else n)"

lemma bytes_int_bytes: "bytes_int (int_bytes i @ rest) = i"
  by (simp add: bytes_int_def int_bytes_def takeWhile_append)

definition plain_chunk_codec :: "MessageChunk codec" where
  "plain_chunk_codec =
     \<lparr>marshal = (\<lambda>c. Inr ((if chunk_IsEOF c then 1 else 0) # int_bytes (chunk_Index c) @ chunk_Data c)),
      unmarshal = (\<lambda>b. Inr \<lparr>chunk_Index = bytes_int (tl b),
        chunk_Data = tl (dropWhile (\<lambda>b. b = 1) (drop 2 b)), chunk_IsEOF = (hd b = 1)\<rparr>)\<rparr>"

definition plain_chunk_ack_codec :: "MessageChunkAck codec" where
  "plain_chunk_ack_codec =
     \<lparr>marshal = (\<lambda>c. Inr ((if cack_IsEOF c then 1 else 0) # int_bytes (cack_Index c))),
      unmarshal = (\<lambda>b. Inr \<lparr>cack_Index = bytes_int (tl b), cack_IsEOF = (hd b = 1)\<rparr>)\<rparr>"

lemma drop_int_bytes: "tl (dropWhile (\<lambda>b. b = 1) (drop 1 (int_bytes i @ rest))) = rest"
  by (simp add: int_bytes_def dropWhile_append)

lemma tl_int_bytes: "tl (dropWhile (\<lambda>b. b = 1) (tl (int_bytes i @ rest))) = rest"
  by (simp add: int_bytes_def dropWhile_append)

lemma plain_chunk_codec_ok: "codec_ok plain_chunk_codec" "codec_total plain_chunk_codec"
  using drop_int_bytes
  by (auto simp: codec_ok_def codec_total_def plain_chunk_codec_def bytes_int_bytes numeral_2_eq_2)

lemma plain_chunk_ack_codec_ok: "codec_ok plain_chunk_ack_codec" "codec_total plain_chunk_ack_codec"
  using bytes_int_bytes [of _ "[]"]
  by (auto simp: codec_ok_def codec_total_def plain_chunk_ack_codec_def)

section \<open>The chunk protocol\<close>

text \<open>The chunks of a payload when every one is acknowledged.\<close>

definition sent_chunks :: "byte list \<Rightarrow> MessageChunk list" where
  "sent_chunks payload = fst (streamChunks (\<lambda>_. None) payload)"

lemma sent_chunks_eq: "sent_chunks payload = chunks_from payload 0 0"
  by (simp add: sent_chunks_def streamChunks_total)

text \<open>
  C30. A payload of any size is streamed as chunks with consecutive indices from zero, none above the
  maximum size, empty only at the end, and exactly the last marked end-of-file. A receiver that gets them
  in order returns the payload, whatever it was, and acknowledges each chunk once; one that gets
  only the first ones returns an error, so a payload is received whole or not at all.
\<close>

theorem chunk_transfer:
  assumes "codec_ok cc" "codec_total cc" "codec_total cca"
  shows "snd (streamChunks (\<lambda>_. None) payload) = None \<and> chunk_list_ok 0 (sent_chunks payload)
    \<and> concat (map chunk_Data (sent_chunks payload)) = payload
    \<and> snd (receive_loop cc cca (\<lambda>_ _. None) [] (arrivals cc reply (sent_chunks payload) @ later)) = Inr payload
    \<and> map fst (fst (receive_loop cc cca (\<lambda>_ _. None) [] (arrivals cc reply (sent_chunks payload) @ later)))
        = map reply (sent_chunks payload)
    \<and> (\<forall>k. k < length (sent_chunks payload) \<longrightarrow>
          isl (snd (receive_loop cc cca (\<lambda>_ _. None) [] (arrivals cc reply (take k (sent_chunks payload))))))"
proof -
  have 1: "chunk_list_ok 0 (sent_chunks payload)" "concat (map chunk_Data (sent_chunks payload)) = payload"
    using chunks_from_ok [of 0 payload 0] by (simp_all add: sent_chunks_def streamChunks_total)
  note rl = receive_loop_chunks [OF assms 1(1), of "[]" reply later, unfolded 1(2)]
  have "isl (snd (receive_loop cc cca (\<lambda>_ _. None) [] (arrivals cc reply (take k (sent_chunks payload)))))"
    if "k < length (sent_chunks payload)" for k
    using receive_loop_cut [OF assms, of "take k (sent_chunks payload)" "[]" reply] chunk_list_ok_prefix [OF 1(1) that] by auto
  with 1 rl show ?thesis by (simp add: streamChunks_total)
qed

lemma sent_chunks_789: "sent_chunks [7, 8, 9] =
    [\<lparr>chunk_Index = 0, chunk_Data = [7, 8, 9], chunk_IsEOF = False\<rparr>, \<lparr>chunk_Index = 1, chunk_Data = [], chunk_IsEOF = True\<rparr>]"
  by (simp add: sent_chunks_def streamChunks_total chunks_from_eq [of _ _ "0 :: nat"]
    chunks_from_eq [of _ _ "Suc (Suc (Suc 0))"] MaxChunkSize_def Let_def)

theorem chunk_transfer_witness:
  "snd (receive_loop plain_chunk_codec plain_chunk_ack_codec (\<lambda>_ _. None) []
      (arrivals plain_chunk_codec (\<lambda>_. ''_INBOX.r'') (sent_chunks [7, 8, 9]) @ [])) = Inr [7, 8, 9]
   \<and> isl (snd (receive_loop plain_chunk_codec plain_chunk_ack_codec (\<lambda>_ _. None) []
      (arrivals plain_chunk_codec (\<lambda>_. ''_INBOX.r'') (take 1 (sent_chunks [7, 8, 9])))))"
proof -
  note t = chunk_transfer [OF plain_chunk_codec_ok plain_chunk_ack_codec_ok(2),
      where payload = "[7, 8, 9]" and reply = "\<lambda>_. ''_INBOX.r''" and later = "[]"]
  have "1 < length (sent_chunks [7, 8, 9])" by (simp add: sent_chunks_789)
  with t show ?thesis by blast
qed

text \<open>
  When sends fail, the sender stops at the first chunk that fails: the chunks before it were all
  sent, in order, it is the last one sent, and its error is returned. Without a failure every chunk was sent.
\<close>

lemma stream_stops_at_first_failure:
  "(case snd (streamChunks send payload) of
      None \<Rightarrow> fst (streamChunks send payload) = sent_chunks payload
        \<and> list_all (\<lambda>c. send c = None) (fst (streamChunks send payload))
    | Some err \<Rightarrow> (\<exists>pre c post. sent_chunks payload = pre @ c # post
        \<and> fst (streamChunks send payload) = pre @ [c] \<and> list_all (\<lambda>c. send c = None) pre \<and> send c = Some err))"
proof -
  let ?cs = "chunks_from payload 0 0"
  show ?thesis
  proof (cases "find (\<lambda>c. send c \<noteq> None) ?cs")
    case None
    then have all: "\<forall>c\<in>set ?cs. send c = None" by (simp add: find_None_iff)
    then have tw: "takeWhile (\<lambda>c. send c = None) ?cs = ?cs" by (simp add: takeWhile_eq_all_conv)
    from None all tw show ?thesis
      by (auto simp: sent_chunks_eq streamChunks_def stream_loop_eq list_all_iff dest: set_takeWhileD)
  next
    case (Some c)
    then obtain i where i: "i < length ?cs" "send (?cs ! i) \<noteq> None" "c = ?cs ! i" "\<forall>j<i. send (?cs ! j) = None"
      by (auto simp: find_Some_iff)
    then have "takeWhile (\<lambda>c. send c = None) ?cs = take i ?cs"
      by (intro takeWhile_eq_take_P_nth) auto
    moreover have "?cs = take i ?cs @ c # drop (Suc i) ?cs" using i by (simp add: id_take_nth_drop [symmetric])
    moreover have "list_all (\<lambda>c. send c = None) (take i ?cs)"
      using i(1,4) by (auto simp: list_all_iff in_set_conv_nth)
    ultimately show ?thesis using Some i(2,3)
      by (auto simp: sent_chunks_eq streamChunks_def stream_loop_eq)
  qed
qed

section \<open>Round trips\<close>

text \<open>What a receiver makes of a sender's requests and chunks; nothing is lost or reordered.\<close>

definition receive_outcome where
  "receive_outcome ca cc cca inbox replySubject reply chunks =
     snd (receiveChunks ca cc cca (\<lambda>_ _. None) (inbox, None) replySubject (arrivals cc reply chunks))"

lemma receive_outcome_eq:
  assumes "codec_ok cc" "codec_total cc" "codec_total cca" "codec_total ca"
  shows "receive_outcome ca cc cca inbox replySubject reply (sent_chunks payload) = Inr payload"
proof -
  obtain b where "marshal ca \<lparr>ack_ChunkSubject = inbox, ack_Error = ''''\<rparr> = Inr b"
    using assms(4) by (auto simp: codec_total_def)
  then show ?thesis
    using receive_loop_chunks [OF assms(1-3), of 0 "sent_chunks payload" "[]" reply "[]"] chunks_from_ok [of 0 payload 0]
    by (simp add: receive_outcome_def receiveChunks_def sent_chunks_eq case_prod_unfold)
qed

lemma streamChunks_success: "streamChunks send payload = (chunks, None) \<Longrightarrow> chunks = sent_chunks payload"
  unfolding streamChunks_def stream_loop_eq
  by (auto simp: sent_chunks_eq find_None_iff takeWhile_eq_all_conv split: option.splits dest: find_Some_mem)

text \<open>A send without error made one request, whose envelope is inline or followed by all chunks.\<close>

lemma sendEnvelope_success:
  assumes "codec_ok ce" "sendEnvelope ce ca maxPayload request sendChunk' subject makeEnvelope payload = (requests, chunks, None)"
  obtains bytes streamed where "requests = [(subject, bytes)]"
    "unmarshal ce bytes = Inr (makeEnvelope (if streamed then [] else payload) streamed)"
    "streamed \<Longrightarrow> chunks = sent_chunks payload"
proof (cases "marshal ce (makeEnvelope payload False)")
  case (Inl err)
  with assms(2) show ?thesis by (simp add: sendEnvelope_def)
next
  case (Inr b)
  show ?thesis
  proof (cases "int (length b) \<le> maxPayload")
    case True
    with assms(2) Inr have "requests = [(subject, b)]" by (simp add: sendEnvelope_def)
    then show ?thesis using that [of b False] codec_okD [OF assms(1) Inr] by simp
  next
    case False
    with assms(2) Inr obtain sb where sb: "marshal ce (makeEnvelope [] True) = Inr sb" "requests = [(subject, sb)]"
      "\<exists>send. streamChunks send payload = (chunks, None)"
      by (auto simp: sendEnvelope_def split: sum.splits if_splits prod.splits)
    then show ?thesis using that [of sb True] codec_okD [OF assms(1) sb(1)] streamChunks_success by auto
  qed
qed

lemma nats_MessageService_success:
  assumes "nats_MessageService cp ce ca maxPayload request sendChunk' serviceID gatewayID socketID connInfo msg
      = Some (requests, chunks, None)"
  obtains payload subject where "marshal cp (payload_of msg) = Inr payload"
    "namespace [''service'', serviceID, ''message''] = Some subject"
    "sendEnvelope ce ca maxPayload request sendChunk' subject (service_envelope gatewayID socketID connInfo msg) payload
      = (requests, chunks, None)"
  using assms by (auto simp: nats_MessageService_def split: sum.splits)

lemma nats_MessageGateway_success:
  assumes "nats_MessageGateway cp ce ca maxPayload request sendChunk' gatewayID socketID msg = Some (requests, chunks, None)"
  obtains payload subject where "marshal cp (payload_of msg) = Inr payload"
    "namespace [''gateway'', gatewayID, ''message''] = Some subject"
    "sendEnvelope ce ca maxPayload request sendChunk' subject (gateway_envelope socketID msg) payload = (requests, chunks, None)"
  using assms by (auto simp: nats_MessageGateway_def split: sum.splits)

lemma gateway_message_roundtrip:
  assumes "codec_ok cp" "codec_ok ce" "codec_total ca" "codec_ok cc" "codec_total cc" "codec_total cca"
    and "nats_MessageGateway cp ce ca maxPayload request sendChunk' gatewayID socketID msg = Some (requests, chunks, None)"
  shows "\<exists>subject bytes envelope. namespace [''gateway'', gatewayID, ''message''] = Some subject
    \<and> requests = [(subject, bytes)] \<and> unmarshal ce bytes = Inr envelope
    \<and> deliverGatewayMessage cp (receive_outcome ca cc cca inbox replySubject reply chunks) envelope = Some (socketID, msg)"
proof -
  obtain payload subject where p: "marshal cp (payload_of msg) = Inr payload"
    and s: "namespace [''gateway'', gatewayID, ''message''] = Some subject"
    and e: "sendEnvelope ce ca maxPayload request sendChunk' subject (gateway_envelope socketID msg) payload = (requests, chunks, None)"
    using assms(7) by (rule nats_MessageGateway_success)
  obtain bytes streamed where b: "requests = [(subject, bytes)]"
    "unmarshal ce bytes = Inr (gateway_envelope socketID msg (if streamed then [] else payload) streamed)"
    "streamed \<Longrightarrow> chunks = sent_chunks payload"
    using sendEnvelope_success [OF assms(2) e] by metis
  have "deliverGatewayMessage cp (receive_outcome ca cc cca inbox replySubject reply chunks)
      (gateway_envelope socketID msg (if streamed then [] else payload) streamed) = Some (socketID, msg)"
    using b(3) codec_okD [OF assms(1) p] receive_outcome_eq [OF assms(4-6) assms(3), of inbox replySubject reply payload]
    by (cases streamed) (simp_all add: deliverGatewayMessage_def gateway_envelope_def payload_of_def)
  with b s show ?thesis by blast
qed


definition chars_bytes :: "string \<Rightarrow> byte list" where
  "chars_bytes s = map (\<lambda>c. word_of_nat (of_char c)) s"

definition bytes_chars :: "byte list \<Rightarrow> string" where
  "bytes_chars bs = map (\<lambda>b. char_of (unat b)) bs"

lemma char_byte: "char_of (unat (word_of_nat (of_char c) :: byte)) = c"
proof -
  have "(of_char c :: nat) < 256" by (rule nat_of_char_less_256)
  then show ?thesis by (simp add: unat_of_nat)
qed

lemma bytes_chars_bytes: "bytes_chars (chars_bytes s) = s"
  by (simp add: bytes_chars_def chars_bytes_def comp_def char_byte)

definition plain_ack_codec :: "MessageAck codec" where
  "plain_ack_codec =
     \<lparr>marshal = (\<lambda>a. Inr (int_bytes (int (length (ack_ChunkSubject a))) @ chars_bytes (ack_ChunkSubject a) @ chars_bytes (ack_Error a))),
      unmarshal = (\<lambda>b. let n = nat (bytes_int b); rest = tl (dropWhile (\<lambda>b. b = 1) (tl b))
        in Inr \<lparr>ack_ChunkSubject = bytes_chars (take n rest), ack_Error = bytes_chars (drop n rest)\<rparr>)\<rparr>"

lemma plain_ack_codec_ok: "codec_ok plain_ack_codec" "codec_total plain_ack_codec"
proof -
  have "length (chars_bytes s) = length s" for s by (simp add: chars_bytes_def)
  then show "codec_ok plain_ack_codec"
    by (auto simp: codec_ok_def plain_ack_codec_def Let_def bytes_int_bytes bytes_chars_bytes tl_int_bytes)
  show "codec_total plain_ack_codec" by (simp add: codec_total_def plain_ack_codec_def)
qed

definition demo_msg :: "nat SocketMessage" where
  "demo_msg = \<lparr>sm_Type = 2, sm_RawData = [1, 2, 3], sm_Data = [2, 3], sm_Meta = []\<rparr>"

definition demo_info :: ConnectionInfo where
  "demo_info = \<lparr>ci_Headers = [], ci_RemoteAddr = ''10.0.0.1''\<rparr>"

definition demo_payload_codec :: "nat MessagePayload codec" where
  "demo_payload_codec = table_codec [(payload_of demo_msg, [1, 2, 3, 2, 3])]"

text \<open>The inline envelope takes six bytes, the streamed one a single byte.\<close>

definition demo_envelope_codec :: "ServiceMessageEnvelope codec" where
  "demo_envelope_codec = table_codec
     [(service_envelope ''g1'' ''k1'' demo_info demo_msg [1, 2, 3, 2, 3] False, [0, 1, 2, 3, 2, 3]),
      (service_envelope ''g1'' ''k1'' demo_info demo_msg [] True, [7])]"

definition demo_request :: "string \<Rightarrow> byte list \<Rightarrow> go_error + byte list" where
  "demo_request subject bytes = marshal plain_ack_codec \<lparr>ack_ChunkSubject = ''_INBOX.q'', ack_Error = ''''\<rparr>"

lemma demo_send:
  "nats_MessageService demo_payload_codec demo_envelope_codec plain_ack_codec 4 demo_request (\<lambda>_ _. None)
      ''s1'' ''g1'' ''k1'' demo_info demo_msg
    = Some ([(''eurus.service.s1.message'', [7])], sent_chunks [1, 2, 3, 2, 3], None)"
proof -
  have n: "namespace [''service'', ''s1'', ''message''] = Some ''eurus.service.s1.message''" by code_simp
  have "parseMessageAck plain_ack_codec (sent_bytes plain_ack_codec \<lparr>ack_ChunkSubject = ''_INBOX.q'', ack_Error = ''''\<rparr>)
    = Inr \<lparr>ack_ChunkSubject = ''_INBOX.q'', ack_Error = ''''\<rparr>"
    using sent_bytes_unmarshal [OF plain_ack_codec_ok] by (simp add: parseMessageAck_def slowConsumerReply_def)
  then have "\<exists>b. demo_request subject bytes = Inr b \<and> parseMessageAck plain_ack_codec b
      = Inr \<lparr>ack_ChunkSubject = ''_INBOX.q'', ack_Error = ''''\<rparr>" for subject bytes
    by (simp add: demo_request_def plain_ack_codec_def sent_bytes_def)
  then obtain b where b: "demo_request subject bytes = Inr b"
    "parseMessageAck plain_ack_codec b = Inr \<lparr>ack_ChunkSubject = ''_INBOX.q'', ack_Error = ''''\<rparr>" for subject bytes
    by (metis demo_request_def)
  show ?thesis
    by (simp add: nats_MessageService_def sendEnvelope_def n b demo_payload_codec_def demo_envelope_codec_def
      table_codec_def service_envelope_def streamChunks_total sent_chunks_eq)
qed


section \<open>What an acknowledgement means\<close>

text \<open>The outcomes the sender reads from what the pump publishes to its reply subject.\<close>

definition ack_outcomes :: "MessageAck codec \<Rightarrow> string \<Rightarrow> pump_effect list \<Rightarrow> (go_error + MessageAck) list" where
  "ack_outcomes ca reply fx =
     concat (map (\<lambda>e. case e of Ack r ack \<Rightarrow> (if r = reply then [parseMessageAck ca (sent_bytes ca ack)] else [])
       | BroadcastClosed _ _ _ \<Rightarrow> []) fx)"

lemma parse_sent_ack:
  assumes "codec_ok ca" "codec_total ca"
  shows "parseMessageAck ca (sent_bytes ca ack) =
    (if ack_Error ack = slowConsumerReply then Inl ErrSlowConsumer
     else if ack_Error ack \<noteq> '''' then Inl (ErrOther (''message rejected: '' @ ack_Error ack)) else Inr ack)"
  using sent_bytes_unmarshal [OF assms, of ack] by (simp add: parseMessageAck_def)

text \<open>
  C32. The sender of a message learns its fate: for every request the pump answers at most once, and the
  sender reads success exactly for an inline message that is now last in the queue of its socket; it
  reads a slow consumer exactly when that queue was full, and then the closure of the socket was
  broadcast and the queues are as before; a request that cannot be decoded is rejected and changes
  nothing; the only requests the pump leaves to the worker to answer are accepted streamed ones.
\<close>

theorem pump_acks_truthful:
  assumes "codec_ok ca" "codec_total ca" "reply \<noteq> ''''" "serve_message decode reply data d = (fx, spawned, d1)"
  shows "(case decode data of
      Inl err \<Rightarrow> ack_outcomes ca reply fx = [Inl (ErrOther ''message rejected: malformed envelope'')] \<and> d1 = d
        \<and> (\<forall>k status reason. BroadcastClosed k status reason \<notin> set fx)
    | Inr (k, streamed, work) \<Rightarrow>
        (if length (go_get [] (queues d) k) < queueSize d
         then go_get [] (queues d1) k = go_get [] (queues d) k @ [work]
           \<and> (\<forall>k'. k' \<noteq> k \<longrightarrow> go_get [] (queues d1) k' = go_get [] (queues d) k')
           \<and> map isl (ack_outcomes ca reply fx) = (if streamed then [] else [False])
           \<and> (\<forall>k status reason. BroadcastClosed k status reason \<notin> set fx)
         else ack_outcomes ca reply fx = [Inl ErrSlowConsumer] \<and> d1 = d
           \<and> [e \<leftarrow> fx. \<forall>r a. e \<noteq> Ack r a] = [BroadcastClosed k StatusPolicyViolation ''Slow consumer'']))"
proof (cases "decode data")
  case (Inl err)
  with assms(3,4) parse_sent_ack [OF assms(1,2)] show ?thesis
    by (auto simp: serve_message_def respondAck_def ack_outcomes_def slowConsumerReply_def)
next
  case (Inr x)
  obtain k streamed work where x: "x = (k, streamed, work)" by (cases x)
  with Inr assms(3,4) parse_sent_ack [OF assms(1,2)] show ?thesis
    by (auto simp: serve_message_def respondAck_def ack_outcomes_def slowConsumerReply_def dispatch_def Let_def
      split: if_splits)
qed

definition demo_decode :: "byte list \<Rightarrow> go_error + string \<times> bool \<times> nat" where
  "demo_decode data = (case data of [] \<Rightarrow> Inl (ErrOther ''malformed'') | b # _ \<Rightarrow> Inr (''k1'', False, unat b))"

theorem pump_acks_truthful_witness:
  "ack_outcomes plain_ack_codec ''_INBOX.r'' (fst (serve_message demo_decode ''_INBOX.r'' [5] (newSocketDispatcher 0)))
     = [Inl ErrSlowConsumer]
   \<and> (let r = serve_message demo_decode ''_INBOX.r'' [5] (new_pump 0) in
     go_get [] (queues (snd (snd r))) ''k1'' = [5])"
proof
  obtain fx sp d1 where r: "serve_message demo_decode ''_INBOX.r'' [5] (newSocketDispatcher 0) = (fx, sp, d1)"
    by (cases "serve_message demo_decode ''_INBOX.r'' [5] (newSocketDispatcher 0)")
  show "ack_outcomes plain_ack_codec ''_INBOX.r'' (fst (serve_message demo_decode ''_INBOX.r'' [5] (newSocketDispatcher 0)))
     = [Inl ErrSlowConsumer]"
    unfolding r fst_conv
    using pump_acks_truthful [OF plain_ack_codec_ok _ r] by (simp add: demo_decode_def newSocketDispatcher_def)
  obtain fx' sp' d1' where r': "serve_message demo_decode ''_INBOX.r'' [5] (new_pump 0) = (fx', sp', d1')"
    by (cases "serve_message demo_decode ''_INBOX.r'' [5] (new_pump 0)")
  show "let r = serve_message demo_decode ''_INBOX.r'' [5] (new_pump 0) in go_get [] (queues (snd (snd r))) ''k1'' = [5]"
    unfolding r' Let_def snd_conv
    using pump_acks_truthful [OF plain_ack_codec_ok _ r']
    by (simp add: demo_decode_def new_pump_def newSocketDispatcher_def dispatchQueueSize_def DefaultDispatchQueueSize_def)
qed

end
