(* ===== verification/NatsPubSub.thy ===== *)
theory NatsPubSub
  imports MessageProps Gateway
begin

text \<open>
  The rest of the NATS transport: how streams are subscribed (\<open>nats-transport.go\<close> and the
  \<open>Subscribe\<close> methods), the loop of \<open>serveMessages\<close>, announcements (\<open>announce-gateway.go\<close>,
  \<open>announce-service.go\<close>), closure broadcasts (\<open>socket-closed.go\<close>) and batched heartbeats
  (\<open>socket-heartbeat.go\<close>), with their properties.
\<close>

section \<open>Subscribing\<close>

datatype nats_effect =
    NatsSubscribe string
  | NatsFlush
  | NatsUnsubscribe string
  | NatsPublish string "byte list"

text \<open>
  Subscribing in all six streams: subscribe, flush, and on a failed flush unsubscribe again. The
  outcomes of the NATS calls are arguments, and so is a panic of \<open>namespace\<close>, the subject \<open>None\<close>.
\<close>

definition subscribe_flush :: "go_error option \<Rightarrow> go_error option \<Rightarrow> string
    \<Rightarrow> nats_effect list \<times> go_error option" where
  "subscribe_flush subErr flushErr subject =
     (case subErr of
        Some err \<Rightarrow> ([NatsSubscribe subject], Some err)
      | None \<Rightarrow>
          (case flushErr of
             Some err \<Rightarrow> ([NatsSubscribe subject, NatsFlush, NatsUnsubscribe subject], Some err)
           | None \<Rightarrow> ([NatsSubscribe subject, NatsFlush], None)))"

definition subscribeAsync :: "go_error option \<Rightarrow> go_error option \<Rightarrow> string
    \<Rightarrow> nats_effect list \<times> go_error option" where
  "subscribeAsync subErr flushErr subject = subscribe_flush subErr flushErr subject"

text \<open>Serving an asynchronous subscription, once its context is done; errors are only traced.\<close>

definition async_serve :: "string \<Rightarrow> nats_effect list \<times> go_error option" where
  "async_serve subject = ([NatsUnsubscribe subject], None)"

definition SubscribeServiceMessages where
  "SubscribeServiceMessages subErr flushErr serviceID =
     map_option (subscribe_flush subErr flushErr) (namespace [''service'', serviceID, ''message''])"

definition SubscribeGatewayMessages where
  "SubscribeGatewayMessages subErr flushErr gatewayID =
     map_option (subscribe_flush subErr flushErr) (namespace [''gateway'', gatewayID, ''message''])"

definition SubscribeGatewayAnnouncements where
  "SubscribeGatewayAnnouncements subErr flushErr =
     map_option (subscribeAsync subErr flushErr) (namespace [''gateway.announce''])"

definition SubscribeServiceAnnouncements where
  "SubscribeServiceAnnouncements subErr flushErr =
     map_option (subscribeAsync subErr flushErr) (namespace [''service.announce''])"

definition SubscribeSocketClosures where
  "SubscribeSocketClosures subErr flushErr =
     map_option (subscribeAsync subErr flushErr) (namespace [''socket'', ''closed''])"

definition SubscribeSocketHeartbeats where
  "SubscribeSocketHeartbeats subErr flushErr gatewayID =
     map_option (subscribeAsync subErr flushErr) (namespace [''gateway'', gatewayID, ''socket-heartbeat''])"

section \<open>The pump loop\<close>

text \<open>The \<open>decode\<close> closures; the work is the reply subject and the envelope, which \<open>deliver\<close> captures.\<close>

definition decode_service :: "ServiceMessageEnvelope codec \<Rightarrow> string \<Rightarrow> byte list
    \<Rightarrow> go_error + string \<times> bool \<times> string \<times> ServiceMessageEnvelope" where
  "decode_service ce reply data =
     (case unmarshal ce data of
        Inl err \<Rightarrow> Inl err
      | Inr envelope \<Rightarrow> Inr (se_SocketID envelope, se_Streamed envelope, reply, envelope))"

definition decode_gateway :: "GatewayMessageEnvelope codec \<Rightarrow> string \<Rightarrow> byte list
    \<Rightarrow> go_error + string \<times> bool \<times> string \<times> GatewayMessageEnvelope" where
  "decode_gateway ce reply data =
     (case unmarshal ce data of
        Inl err \<Rightarrow> Inl err
      | Inr envelope \<Rightarrow> Inr (ge_SocketID envelope, ge_Streamed envelope, reply, envelope))"

definition ErrCanceled :: go_error where
  "ErrCanceled = ErrOther ''context canceled''"

text \<open>
  The loop of \<open>serveMessages\<close> over the outcomes of \<open>NextMsgWithContext\<close>; \<open>between k\<close> is what the workers
  do to the dispatcher before the k-th of them. The last component is \<open>None\<close> while the loop has not
  ended, else the error it returns.
\<close>

fun serveMessages :: "(string \<Rightarrow> byte list \<Rightarrow> go_error + string \<times> bool \<times> 'w)
    \<Rightarrow> (nat \<Rightarrow> 'w socketDispatcher \<Rightarrow> 'w socketDispatcher) \<Rightarrow> nat \<Rightarrow> (go_error + string \<times> byte list) list
    \<Rightarrow> 'w socketDispatcher \<Rightarrow> pump_effect list \<times> 'w socketDispatcher \<times> go_error option option" where
  "serveMessages decode between k [] d = ([], d, None)"
| "serveMessages decode between k (Inl err # rest) d =
     ([], between k d, Some (if errors_Is err ErrCanceled then None else Some err))"
| "serveMessages decode between k (Inr (reply, data) # rest) d =
     (case serve_message (decode reply) reply data (between k d) of
        (fx, spawned, d1) \<Rightarrow>
          (case serveMessages decode between (Suc k) rest d1 of
             (gx, d2, r) \<Rightarrow> (fx @ gx, d2, r)))"

section \<open>Announcements and closures\<close>

text \<open>
  Publishing an envelope; \<open>publishErr\<close> is the outcome of \<open>Publish\<close>. The three broadcasts share this.
\<close>

definition publish_envelope :: "'a codec \<Rightarrow> go_error option \<Rightarrow> string list \<Rightarrow> 'a
    \<Rightarrow> (nats_effect list \<times> go_error option) option" where
  "publish_envelope c publishErr subjectParts x =
     (case marshal c x of
        Inl err \<Rightarrow> Some ([], Some err)
      | Inr bytes \<Rightarrow> map_option (\<lambda>subject. ([NatsPublish subject bytes], publishErr)) (namespace subjectParts))"

text \<open>
  A service descriptor on the wire: the fields with a msgpack name, routes as pattern strings. (The
  times and socket IDs of a descriptor have the tag "-".)
\<close>

record WireService =
  ws_Name :: string
  ws_ID :: string
  ws_GatewayNames :: "string list"
  ws_Routes :: "string list"

record WireGateway =
  wg_Name :: string
  wg_Services :: "WireService list"

definition wire_service :: "('p \<Rightarrow> string) \<Rightarrow> 'p ServiceDescriptor \<Rightarrow> WireService" where
  "wire_service pattern_String d =
     \<lparr>ws_Name = sd_Name d, ws_ID = sd_ID d, ws_GatewayNames = sd_GatewayNames d,
      ws_Routes = map (\<lambda>r. pattern_String (Pattern r)) (sd_RouteDescriptors d)\<rparr>"

definition wire_gateway :: "('p \<Rightarrow> string) \<Rightarrow> 'p heap \<Rightarrow> GatewayDescriptor \<Rightarrow> WireGateway" where
  "wire_gateway pattern_String h g =
     \<lparr>wg_Name = gd_Name g, wg_Services = map (\<lambda>d. wire_service pattern_String (h d)) (gd_ServiceDescriptors g)\<rparr>"

text \<open>Routes are decoded by \<open>UnmarshalMsgpack\<close>, one \<open>NewPattern\<close> each; the first error is the result.\<close>

fun read_routes :: "(string \<Rightarrow> go_error + 'p) \<Rightarrow> string list \<Rightarrow> go_error + 'p RouteDescriptor list" where
  "read_routes newPattern [] = Inr []"
| "read_routes newPattern (s # ss) =
     (case newPattern s of
        Inl err \<Rightarrow> Inl err
      | Inr p \<Rightarrow> (case read_routes newPattern ss of Inl err \<Rightarrow> Inl err | Inr rs \<Rightarrow> Inr (\<lparr>Pattern = p\<rparr> # rs)))"

definition read_service :: "(string \<Rightarrow> go_error + 'p) \<Rightarrow> WireService \<Rightarrow> go_error + 'p ServiceDescriptor" where
  "read_service newPattern s =
     (case read_routes newPattern (ws_Routes s) of
        Inl err \<Rightarrow> Inl err
      | Inr routes \<Rightarrow> Inr \<lparr>sd_Name = ws_Name s, sd_ID = ws_ID s, sd_GatewayNames = ws_GatewayNames s,
          sd_RouteDescriptors = routes, sd_LastSeenAt = None, sd_socketIDs = []\<rparr>)"

definition nats_AnnounceService where
  "nats_AnnounceService cs pattern_String publishErr d =
     publish_envelope cs publishErr [''service.announce''] (wire_service pattern_String d)"

definition nats_AnnounceGateway where
  "nats_AnnounceGateway cg pattern_String publishErr h g =
     publish_envelope cg publishErr [''gateway.announce''] (wire_gateway pattern_String h g)"

text \<open>The callbacks: the argument of the handler call, \<open>None\<close> for a message that is discarded.\<close>

definition on_service_announcement :: "WireService codec \<Rightarrow> (string \<Rightarrow> go_error + 'p) \<Rightarrow> byte list
    \<Rightarrow> 'p ServiceDescriptor option" where
  "on_service_announcement cs newPattern data =
     (case unmarshal cs data of
        Inl err \<Rightarrow> None
      | Inr s \<Rightarrow> (case read_service newPattern s of Inl err \<Rightarrow> None | Inr d \<Rightarrow> Some d))"

fun read_services :: "(string \<Rightarrow> go_error + 'p) \<Rightarrow> WireService list \<Rightarrow> go_error + 'p ServiceDescriptor list" where
  "read_services newPattern [] = Inr []"
| "read_services newPattern (s # ss) =
     (case read_service newPattern s of
        Inl err \<Rightarrow> Inl err
      | Inr d \<Rightarrow> (case read_services newPattern ss of Inl err \<Rightarrow> Inl err | Inr ds \<Rightarrow> Inr (d # ds)))"

definition on_gateway_announcement :: "WireGateway codec \<Rightarrow> (string \<Rightarrow> go_error + 'p) \<Rightarrow> byte list
    \<Rightarrow> (string \<times> 'p ServiceDescriptor list) option" where
  "on_gateway_announcement cg newPattern data =
     (case unmarshal cg data of
        Inl err \<Rightarrow> None
      | Inr g \<Rightarrow> (case read_services newPattern (wg_Services g) of Inl err \<Rightarrow> None | Inr ds \<Rightarrow> Some (wg_Name g, ds)))"

record SocketClosedEnvelope =
  sc_SocketID :: string
  sc_Status :: Status
  sc_Reason :: string

definition nats_ClosedSocket where
  "nats_ClosedSocket cc publishErr socketID status reason =
     publish_envelope cc publishErr [''socket'', ''closed'']
       \<lparr>sc_SocketID = socketID, sc_Status = status, sc_Reason = reason\<rparr>"

definition on_socket_closed :: "SocketClosedEnvelope codec \<Rightarrow> byte list \<Rightarrow> (string \<times> Status \<times> string) option" where
  "on_socket_closed cc data =
     (case unmarshal cc data of
        Inl err \<Rightarrow> None
      | Inr e \<Rightarrow> Some (sc_SocketID e, sc_Status e, sc_Reason e))"

section \<open>Heartbeats\<close>

definition heartbeatMaxBatchSize :: nat where
  "heartbeatMaxBatchSize = 4096"

record SocketHeartbeatEnvelope =
  hb_ServiceID :: string
  hb_SocketIDs :: "string list"

record SocketHeartbeatReply =
  hr_DeadSocketIDs :: "string list"

text \<open>One batch of \<open>HeartbeatSockets\<close>.\<close>

definition heartbeat_batch :: "SocketHeartbeatEnvelope codec \<Rightarrow> SocketHeartbeatReply codec
    \<Rightarrow> (byte list \<Rightarrow> go_error + byte list) \<Rightarrow> string \<Rightarrow> string list \<Rightarrow> go_error + string list" where
  "heartbeat_batch ce cr request serviceID ids =
     (case marshal ce \<lparr>hb_ServiceID = serviceID, hb_SocketIDs = ids\<rparr> of
        Inl err \<Rightarrow> Inl err
      | Inr envelopeBytes \<Rightarrow>
          (case request envelopeBytes of
             Inl err \<Rightarrow> Inl err
           | Inr replyBytes \<Rightarrow>
               (case unmarshal cr replyBytes of Inl err \<Rightarrow> Inl err | Inr reply \<Rightarrow> Inr (hr_DeadSocketIDs reply))))"

function heartbeat_loop :: "(string list \<Rightarrow> go_error + string list) \<Rightarrow> string list \<Rightarrow> nat \<Rightarrow> string list
    \<Rightarrow> go_error + string list" where
  "heartbeat_loop send ids start dead =
     (if start < length ids then
        (let e = min (start + heartbeatMaxBatchSize) (length ids)
         in case send (take (e - start) (drop start ids)) of
              Inl err \<Rightarrow> Inl err
            | Inr d \<Rightarrow> heartbeat_loop send ids (start + heartbeatMaxBatchSize) (dead @ d))
      else Inr dead)"
  by pat_completeness auto
termination
  by (relation "measure (\<lambda>(send, ids, start, dead). length ids - start)") (auto simp: heartbeatMaxBatchSize_def)

declare heartbeat_loop.simps [simp del]

definition nats_HeartbeatSockets where
  "nats_HeartbeatSockets ce cr request gatewayID serviceID ids =
     (if length ids = 0 then Some (Inr [])
      else map_option (\<lambda>subject. heartbeat_loop (heartbeat_batch ce cr (request subject) serviceID) ids 0 [])
        (namespace [''gateway'', gatewayID, ''socket-heartbeat'']))"

text \<open>The gateway's side: the reply it sends, \<open>None\<close> for no reply.\<close>

definition on_heartbeat :: "SocketHeartbeatEnvelope codec \<Rightarrow> SocketHeartbeatReply codec
    \<Rightarrow> (string \<Rightarrow> string list \<Rightarrow> string list) \<Rightarrow> byte list \<Rightarrow> byte list option" where
  "on_heartbeat ce cr handler data =
     (case unmarshal ce data of
        Inl err \<Rightarrow> None
      | Inr envelope \<Rightarrow>
          (case marshal cr \<lparr>hr_DeadSocketIDs = handler (hb_ServiceID envelope) (hb_SocketIDs envelope)\<rparr> of
             Inl err \<Rightarrow> None
           | Inr replyBytes \<Rightarrow> Some replyBytes))"

end
