(* ===== verification/NatsPubSubProps.thy ===== *)
theory NatsPubSubProps
  imports NatsPubSub
begin

text \<open>
  Properties of the remaining NATS streams: batched heartbeats answer as one call would, announcements
  arrive unchanged and as fresh descriptors, and no subscription survives a failure.
\<close>

section \<open>Batches\<close>

function batches :: "'a list \<Rightarrow> 'a list list" where
  "batches xs = (if xs = [] then [] else take heartbeatMaxBatchSize xs # batches (drop heartbeatMaxBatchSize xs))"
  by pat_completeness auto
termination
  by (relation "measure length") (auto simp: heartbeatMaxBatchSize_def)

declare batches.simps [simp del]

lemma batches_Nil [simp]: "batches [] = []"
  by (simp add: batches.simps)

lemma batches_ok: "concat (batches xs) = xs \<and> (\<forall>b\<in>set (batches xs). b \<noteq> [] \<and> length b \<le> heartbeatMaxBatchSize)"
proof (induction xs rule: batches.induct)
  case (1 xs)
  show ?case
  proof (cases "xs = []")
    case False
    with 1 show ?thesis by (subst (1 2) batches.simps) (auto simp: heartbeatMaxBatchSize_def)
  qed simp
qed

lemma heartbeat_loop_batches:
  "heartbeat_loop send ids start dead =
     (case find (\<lambda>b. isl (send b)) (batches (drop start ids)) of
        Some b \<Rightarrow> send b
      | None \<Rightarrow> Inr (dead @ concat (map (\<lambda>b. projr (send b)) (batches (drop start ids)))))"
proof (induction send ids start dead rule: heartbeat_loop.induct)
  case (1 send ids start dead)
  show ?case
  proof (cases "start < length ids")
    case True
    let ?b = "take (min (start + heartbeatMaxBatchSize) (length ids) - start) (drop start ids)"
    have b: "?b = take heartbeatMaxBatchSize (drop start ids)"
    proof (cases "start + heartbeatMaxBatchSize \<le> length ids")
      case False
      then have "min (start + heartbeatMaxBatchSize) (length ids) - start = length ids - start"
        "length (drop start ids) \<le> heartbeatMaxBatchSize" by simp_all
      then show ?thesis by (metis length_drop order_refl take_all)
    next
      case True
      then have "min (start + heartbeatMaxBatchSize) (length ids) = start + heartbeatMaxBatchSize" by simp
      then show ?thesis by simp
    qed
    have bs: "batches (drop start ids) = ?b # batches (drop (start + heartbeatMaxBatchSize) ids)"
      unfolding b using True by (subst batches.simps) (simp add: add.commute)
    show ?thesis
      using 1 [OF True refl] True by (subst heartbeat_loop.simps) (auto simp: bs Let_def split: sum.split option.split)
  next
    case False
    then show ?thesis by (subst heartbeat_loop.simps) simp
  qed
qed

lemma heartbeat_loop_distributes:
  assumes "\<And>b. send b = Inr (f b)" "\<And>a b. f (a @ b) = f a @ f b" "f [] = []"
  shows "heartbeat_loop send ids 0 [] = Inr (f ids)"
proof -
  have "concat (map f bs) = f (concat bs)" for bs using assms(2,3) by (induction bs) auto
  with batches_ok [of ids] show ?thesis by (simp add: heartbeat_loop_batches assms(1) find_never)
qed

lemma heartbeat_answer:
  assumes "codec_ok ce" "codec_total ce" "codec_ok cr" "codec_total cr"
    and "\<And>bytes. request bytes = (case on_heartbeat ce cr handler bytes of None \<Rightarrow> Inl e | Some b \<Rightarrow> Inr b)"
  shows "heartbeat_batch ce cr request serviceID ids = Inr (handler serviceID ids)"
proof -
  obtain eb where "marshal ce \<lparr>hb_ServiceID = serviceID, hb_SocketIDs = ids\<rparr> = Inr eb"
    using assms(2) by (auto simp: codec_total_def)
  moreover obtain rb where "marshal cr \<lparr>hr_DeadSocketIDs = handler serviceID ids\<rparr> = Inr rb"
    using assms(4) by (auto simp: codec_total_def)
  ultimately show ?thesis
    using codec_okD [OF assms(1)] codec_okD [OF assms(3)] assms(5) by (simp add: heartbeat_batch_def on_heartbeat_def)
qed

section \<open>Properties\<close>

text \<open>
  C35. Batching does not change a heartbeat: for any number of sockets, the answer a service gets from a
  gateway it can reach is the one the gateway's handler gives for all the sockets at once, exactly the
  sockets that are not in its table, in their order; every request carries at most 4096 of them, each
  socket in exactly one. When a batch fails, the whole heartbeat fails with its error.
\<close>

theorem heartbeat_batching:
  assumes "codec_ok ce" "codec_total ce" "codec_ok cr" "codec_total cr"
    and "\<And>bytes. request subject bytes =
      (case on_heartbeat ce cr (\<lambda>serviceID ids. handleSocketHeartbeats ids w) bytes of None \<Rightarrow> Inl e | Some b \<Rightarrow> Inr b)"
    and "namespace [''gateway'', gatewayID, ''socket-heartbeat''] = Some subject"
  shows "nats_HeartbeatSockets ce cr request gatewayID serviceID ids = Some (Inr (handleSocketHeartbeats ids w))
    \<and> concat (batches ids) = ids \<and> (\<forall>b\<in>set (batches ids). 0 < length b \<and> length b \<le> 4096)
    \<and> (\<forall>request'. nats_HeartbeatSockets ce cr request' gatewayID serviceID ids = Some
        (case find (\<lambda>b. isl (heartbeat_batch ce cr (request' subject) serviceID b)) (batches ids) of
           Some b \<Rightarrow> heartbeat_batch ce cr (request' subject) serviceID b
         | None \<Rightarrow> Inr (concat (map (\<lambda>b. projr (heartbeat_batch ce cr (request' subject) serviceID b)) (batches ids)))))"
proof -
  have "heartbeat_loop (heartbeat_batch ce cr (request subject) serviceID) ids 0 [] = Inr (handleSocketHeartbeats ids w)"
    using heartbeat_answer [OF assms(1-5)]
    by (intro heartbeat_loop_distributes) (auto simp: handleSocketHeartbeats_def)
  then have "nats_HeartbeatSockets ce cr request gatewayID serviceID ids = Some (Inr (handleSocketHeartbeats ids w))"
    using assms(6) by (simp add: nats_HeartbeatSockets_def handleSocketHeartbeats_def)
  moreover have "concat (batches ids) = ids \<and> (\<forall>b\<in>set (batches ids). 0 < length b \<and> length b \<le> 4096)"
    using batches_ok [of ids] by (simp add: heartbeatMaxBatchSize_def)
  moreover have "nats_HeartbeatSockets ce cr request' gatewayID serviceID ids = Some
        (case find (\<lambda>b. isl (heartbeat_batch ce cr (request' subject) serviceID b)) (batches ids) of
           Some b \<Rightarrow> heartbeat_batch ce cr (request' subject) serviceID b
         | None \<Rightarrow> Inr (concat (map (\<lambda>b. projr (heartbeat_batch ce cr (request' subject) serviceID b)) (batches ids))))"
    for request'
    using assms(6) by (simp add: nats_HeartbeatSockets_def heartbeat_loop_batches split: option.split)
  ultimately show ?thesis by blast
qed

section \<open>A codec for lists of strings\<close>

text \<open>Each character takes two bytes, each string ends with a zero byte.\<close>

fun strings_bytes :: "string list \<Rightarrow> byte list" where
  "strings_bytes [] = []"
| "strings_bytes (s # ss) = concat (map (\<lambda>b. [1, b]) (chars_bytes s)) @ 0 # strings_bytes ss"

fun bytes_strings :: "byte list \<Rightarrow> byte list \<Rightarrow> string list" where
  "bytes_strings acc [] = []"
| "bytes_strings acc [t] = (if t = 0 then [bytes_chars acc] else [])"
| "bytes_strings acc (t # b # bs) =
     (if t = 0 then bytes_chars acc # bytes_strings [] (b # bs) else bytes_strings (acc @ [b]) bs)"

lemma bytes_strings_pairs:
  "bytes_strings acc (concat (map (\<lambda>b. [1, b]) xs) @ rest) = bytes_strings (acc @ xs) rest"
  by (induction xs arbitrary: acc) auto

lemma bytes_strings_zero: "bytes_strings acc ((0 :: byte) # bs) = bytes_chars acc # bytes_strings [] bs"
  by (cases bs) auto

lemma bytes_strings_bytes: "bytes_strings [] (strings_bytes ss) = ss"
  by (induction ss) (simp_all add: bytes_strings_pairs bytes_strings_zero bytes_chars_bytes)

definition plain_hb_codec :: "SocketHeartbeatEnvelope codec" where
  "plain_hb_codec =
     \<lparr>marshal = (\<lambda>e. Inr (strings_bytes (hb_ServiceID e # hb_SocketIDs e))),
      unmarshal = (\<lambda>bs. case bytes_strings [] bs of
        [] \<Rightarrow> Inl (ErrOther ''malformed'') | s # ss \<Rightarrow> Inr \<lparr>hb_ServiceID = s, hb_SocketIDs = ss\<rparr>)\<rparr>"

definition plain_hr_codec :: "SocketHeartbeatReply codec" where
  "plain_hr_codec =
     \<lparr>marshal = (\<lambda>e. Inr (strings_bytes (hr_DeadSocketIDs e))),
      unmarshal = (\<lambda>bs. Inr \<lparr>hr_DeadSocketIDs = bytes_strings [] bs\<rparr>)\<rparr>"

lemma plain_hb_codec_ok:
  "codec_ok plain_hb_codec" "codec_total plain_hb_codec" "codec_ok plain_hr_codec" "codec_total plain_hr_codec"
  using bytes_strings_bytes
  by (auto simp: codec_ok_def codec_total_def plain_hb_codec_def plain_hr_codec_def simp del: strings_bytes.simps)

definition demo_gworld :: "(string, nat) gworld" where
  "demo_gworld = \<lparr>w_heap = (\<lambda>_. \<lparr>sd_Name = '''', sd_ID = '''', sd_GatewayNames = [], sd_RouteDescriptors = [],
      sd_LastSeenAt = None, sd_socketIDs = []\<rparr>),
    w_gw = (NewGateway ''gw'' ''g1'' 10 5)\<lparr>gw_sockets := [(''k1'', 0)]\<rparr>, w_out = []\<rparr>"

definition demo_hb_request :: "string \<Rightarrow> byte list \<Rightarrow> go_error + byte list" where
  "demo_hb_request subject bytes =
     (case on_heartbeat plain_hb_codec plain_hr_codec (\<lambda>serviceID ids. handleSocketHeartbeats ids demo_gworld) bytes of
        None \<Rightarrow> Inl (ErrOther ''nats: timeout'') | Some b \<Rightarrow> Inr b)"

theorem heartbeat_batching_witness:
  "nats_HeartbeatSockets plain_hb_codec plain_hr_codec demo_hb_request ''g1'' ''s1'' [''k1'', ''k2'']
     = Some (Inr [''k2''])"
proof -
  have n: "namespace [''gateway'', ''g1'', ''socket-heartbeat''] = Some ''eurus.gateway.g1.socket-heartbeat''"
    by code_simp
  have "handleSocketHeartbeats [''k1'', ''k2''] demo_gworld = [''k2'']" by code_simp
  with heartbeat_batching [OF plain_hb_codec_ok demo_hb_request_def n, where serviceID = "''s1''" and ids = "[''k1'', ''k2'']"]
  show ?thesis by simp
qed

section \<open>Announcements\<close>

lemma read_routes_wire:
  assumes "\<And>p. newPattern (pattern_String p) = Inr p"
  shows "read_routes newPattern (map (\<lambda>r. pattern_String (Pattern r)) rs) = Inr rs"
  using assms by (induction rs) auto

lemma read_service_wire:
  assumes "\<And>p. newPattern (pattern_String p) = Inr p"
  shows "read_service newPattern (wire_service pattern_String d) = Inr (d\<lparr>sd_LastSeenAt := None, sd_socketIDs := []\<rparr>)"
  using read_routes_wire [OF assms] by (simp add: read_service_def wire_service_def)

lemma read_services_wire:
  assumes "\<And>p. newPattern (pattern_String p) = Inr p"
  shows "read_services newPattern (map (\<lambda>d. wire_service pattern_String (h d)) ds)
    = Inr (map (\<lambda>d. (h d)\<lparr>sd_LastSeenAt := None, sd_socketIDs := []\<rparr>) ds)"
  using read_service_wire [OF assms] by (induction ds) auto

lemma publish_envelopeD:
  assumes "codec_ok c" "publish_envelope c publishErr parts x = Some (fx, None)"
  obtains subject bytes where "namespace parts = Some subject" "fx = [NatsPublish subject bytes]" "unmarshal c bytes = Inr x"
  using assms(2) codec_okD [OF assms(1)] by (auto simp: publish_envelope_def split: sum.splits)

text \<open>
  Announcements arrive unchanged, as new descriptors: what a gateway decodes from a published
  service announcement is the announced descriptor with all of its routes, never seen and without
  sockets; what a service decodes from a gateway's announcement is the gateway's name and its
  descriptors in order, so it finds its own ID exactly if the gateway listed it.
\<close>

lemma announcement_roundtrip:
  assumes "codec_ok cs" "codec_ok cg" "\<And>p. newPattern (pattern_String p) = Inr p"
    and "nats_AnnounceService cs pattern_String perr d = Some (fx, None)"
    and "nats_AnnounceGateway cg pattern_String perr' h g = Some (gx, None)"
  shows "\<exists>bytes bytes'. fx = [NatsPublish ''eurus.service.announce'' bytes]
    \<and> on_service_announcement cs newPattern bytes = Some (d\<lparr>sd_LastSeenAt := None, sd_socketIDs := []\<rparr>)
    \<and> gx = [NatsPublish ''eurus.gateway.announce'' bytes']
    \<and> on_gateway_announcement cg newPattern bytes' = Some (gd_Name g,
        map (\<lambda>d. (h d)\<lparr>sd_LastSeenAt := None, sd_socketIDs := []\<rparr>) (gd_ServiceDescriptors g))"
proof -
  have n: "namespace [''service.announce''] = Some ''eurus.service.announce''"
    "namespace [''gateway.announce''] = Some ''eurus.gateway.announce''" by code_simp+
  obtain b where "fx = [NatsPublish ''eurus.service.announce'' b]" "unmarshal cs b = Inr (wire_service pattern_String d)"
    using publish_envelopeD [OF assms(1) assms(4)[unfolded nats_AnnounceService_def]] n(1) by (metis option.inject)
  moreover obtain b' where "gx = [NatsPublish ''eurus.gateway.announce'' b']"
    "unmarshal cg b' = Inr (wire_gateway pattern_String h g)"
    using publish_envelopeD [OF assms(2) assms(5)[unfolded nats_AnnounceGateway_def]] n(2) by (metis option.inject)
  ultimately show ?thesis
    by (simp add: on_service_announcement_def on_gateway_announcement_def wire_gateway_def
      read_service_wire [OF assms(3)] read_services_wire [OF assms(3)])
qed

definition demo_sd :: "string ServiceDescriptor" where
  "demo_sd = \<lparr>sd_Name = ''chat'', sd_ID = ''s1'', sd_GatewayNames = [], sd_RouteDescriptors = [\<lparr>Pattern = ''/chat''\<rparr>],
     sd_LastSeenAt = Some 7, sd_socketIDs = [''k1'']\<rparr>"

definition demo_gd :: GatewayDescriptor where
  "demo_gd = \<lparr>gd_Name = ''gw'', gd_ServiceDescriptors = [0]\<rparr>"

lemma announcement_roundtrip_witness:
  "on_service_announcement (table_codec [(wire_service (\<lambda>p. p) demo_sd, [1])]) Inr [1]
     = Some (demo_sd\<lparr>sd_LastSeenAt := None, sd_socketIDs := []\<rparr>)"
proof -
  let ?cs = "table_codec [(wire_service (\<lambda>p. p) demo_sd, [1])]"
  let ?cg = "table_codec [(wire_gateway (\<lambda>p. p) (\<lambda>_. demo_sd) demo_gd, [2])]"
  have n: "namespace [''service.announce''] = Some ''eurus.service.announce''"
    "namespace [''gateway.announce''] = Some ''eurus.gateway.announce''" by code_simp+
  have "nats_AnnounceService ?cs (\<lambda>p. p) None demo_sd = Some ([NatsPublish ''eurus.service.announce'' [1]], None)"
    "nats_AnnounceGateway ?cg (\<lambda>p. p) None (\<lambda>_. demo_sd) demo_gd = Some ([NatsPublish ''eurus.gateway.announce'' [2]], None)"
    by (simp_all add: nats_AnnounceService_def nats_AnnounceGateway_def publish_envelope_def table_codec_def n)
  from announcement_roundtrip [OF _ _ _ this, where newPattern = Inr] show ?thesis
    by (simp add: table_codec_ok)
qed

section \<open>Subscriptions\<close>

text \<open>The subjects left subscribed by a sequence of NATS calls in which the subscribes that fail have none.\<close>

fun still_subscribed :: "string list \<Rightarrow> nats_effect list \<Rightarrow> string list" where
  "still_subscribed subs [] = subs"
| "still_subscribed subs (NatsSubscribe s # fx) = still_subscribed (s # subs) fx"
| "still_subscribed subs (NatsUnsubscribe s # fx) = still_subscribed (remove1 s subs) fx"
| "still_subscribed subs (NatsFlush # fx) = still_subscribed subs fx"
| "still_subscribed subs (NatsPublish s b # fx) = still_subscribed subs fx"

lemma subscribe_flush_result:
  assumes "subscribe_flush subErr flushErr subject = (fx, r)" "subErr = None"
  shows "still_subscribed subs fx = (if r = None then subject # subs else subs)" "r = flushErr"
    "r = None \<Longrightarrow> still_subscribed subs (fx @ fst (async_serve subject)) = subs"
  using assms by (auto simp: subscribe_flush_def async_serve_def split: option.splits)

end
