(* ===== verification/LocalTransport.thy ===== *)
theory LocalTransport
  imports Wire Machines
begin

text \<open>
  The in-process transport, \<open>transport/localtransport\<close>: registries of handlers under one mutex. Three
  streams are broadcasts, whose handlers have numeric IDs, and three are addressed by the ID of a
  gateway or a service. A handler is an opaque value; what calling it does to the world is an argument
  \<open>call\<close>, so handlers may use the transport themselves (no lock is held while they run).
\<close>

section \<open>State\<close>

type_synonym handlerID = "64 word"

record 'h LocalTransport =
  lt_nextHandlerID :: handlerID
  lt_gatewayAnnounce :: "(handlerID, 'h) gomap"
  lt_serviceAnnounce :: "(handlerID, 'h) gomap"
  lt_serviceMessage :: "(string, 'h) gomap"
  lt_gatewayMessage :: "(string, 'h) gomap"
  lt_socketClosed :: "(handlerID, 'h) gomap"
  lt_socketHeartbeat :: "(string, 'h) gomap"

definition lt_New :: "'h LocalTransport" where
  "lt_New = \<lparr>lt_nextHandlerID = 0, lt_gatewayAnnounce = [], lt_serviceAnnounce = [], lt_serviceMessage = [],
     lt_gatewayMessage = [], lt_socketClosed = [], lt_socketHeartbeat = []\<rparr>"

definition registerHandlerID :: "'h LocalTransport \<Rightarrow> handlerID \<times> 'h LocalTransport" where
  "registerHandlerID t = (let t1 = t\<lparr>lt_nextHandlerID := lt_nextHandlerID t + 1\<rparr> in (lt_nextHandlerID t1, t1))"

section \<open>Broadcasts\<close>

text \<open>The \<open>Subscribe\<close> methods give the ID that the closure passed to \<open>untilDone\<close> deletes.\<close>

definition lt_SubscribeGatewayAnnouncements :: "'h \<Rightarrow> 'h LocalTransport \<Rightarrow> handlerID \<times> 'h LocalTransport" where
  "lt_SubscribeGatewayAnnouncements handler t =
     (case registerHandlerID t of (hid, t1) \<Rightarrow>
        (hid, t1\<lparr>lt_gatewayAnnounce := AList.update hid handler (lt_gatewayAnnounce t1)\<rparr>))"

definition lt_UnsubscribeGatewayAnnouncements :: "handlerID \<Rightarrow> 'h LocalTransport \<Rightarrow> 'h LocalTransport" where
  "lt_UnsubscribeGatewayAnnouncements hid t = t\<lparr>lt_gatewayAnnounce := AList.delete hid (lt_gatewayAnnounce t)\<rparr>"

definition lt_SubscribeServiceAnnouncements :: "'h \<Rightarrow> 'h LocalTransport \<Rightarrow> handlerID \<times> 'h LocalTransport" where
  "lt_SubscribeServiceAnnouncements handler t =
     (case registerHandlerID t of (hid, t1) \<Rightarrow>
        (hid, t1\<lparr>lt_serviceAnnounce := AList.update hid handler (lt_serviceAnnounce t1)\<rparr>))"

definition lt_UnsubscribeServiceAnnouncements :: "handlerID \<Rightarrow> 'h LocalTransport \<Rightarrow> 'h LocalTransport" where
  "lt_UnsubscribeServiceAnnouncements hid t = t\<lparr>lt_serviceAnnounce := AList.delete hid (lt_serviceAnnounce t)\<rparr>"

definition lt_SubscribeSocketClosures :: "'h \<Rightarrow> 'h LocalTransport \<Rightarrow> handlerID \<times> 'h LocalTransport" where
  "lt_SubscribeSocketClosures handler t =
     (case registerHandlerID t of (hid, t1) \<Rightarrow>
        (hid, t1\<lparr>lt_socketClosed := AList.update hid handler (lt_socketClosed t1)\<rparr>))"

definition lt_UnsubscribeSocketClosures :: "handlerID \<Rightarrow> 'h LocalTransport \<Rightarrow> 'h LocalTransport" where
  "lt_UnsubscribeSocketClosures hid t = t\<lparr>lt_socketClosed := AList.delete hid (lt_socketClosed t)\<rparr>"

text \<open>The handlers copied from a map, in the order in which Go ranges over it.\<close>

definition snapshot :: "handlerID range_order \<Rightarrow> (handlerID, 'h) gomap \<Rightarrow> 'h list" where
  "snapshot rg m = List.map_filter (map_of m) (rg 0 (gomap_keys m))"

definition lt_AnnounceGateway :: "('w \<Rightarrow> 'h LocalTransport) \<Rightarrow> ('h \<Rightarrow> 'd \<Rightarrow> 'w \<Rightarrow> 'w)
    \<Rightarrow> handlerID range_order \<Rightarrow> 'd \<Rightarrow> 'w \<Rightarrow> 'w" where
  "lt_AnnounceGateway lt call rg descriptor w =
     fold (\<lambda>h. call h descriptor) (snapshot rg (lt_gatewayAnnounce (lt w))) w"

definition lt_AnnounceService :: "('w \<Rightarrow> 'h LocalTransport) \<Rightarrow> ('h \<Rightarrow> 'd \<Rightarrow> 'w \<Rightarrow> 'w)
    \<Rightarrow> handlerID range_order \<Rightarrow> 'd \<Rightarrow> 'w \<Rightarrow> 'w" where
  "lt_AnnounceService lt call rg descriptor w =
     fold (\<lambda>h. call h descriptor) (snapshot rg (lt_serviceAnnounce (lt w))) w"

definition lt_ClosedSocket :: "('w \<Rightarrow> 'h LocalTransport) \<Rightarrow> ('h \<Rightarrow> string \<Rightarrow> Status \<Rightarrow> string \<Rightarrow> 'w \<Rightarrow> 'w)
    \<Rightarrow> handlerID range_order \<Rightarrow> string \<Rightarrow> Status \<Rightarrow> string \<Rightarrow> 'w \<Rightarrow> 'w" where
  "lt_ClosedSocket lt call rg socketID status reason w =
     fold (\<lambda>h. call h socketID status reason) (snapshot rg (lt_socketClosed (lt w))) w"

section \<open>Addressed streams\<close>

definition lt_SubscribeServiceMessages :: "string \<Rightarrow> 'h \<Rightarrow> 'h LocalTransport \<Rightarrow> 'h LocalTransport" where
  "lt_SubscribeServiceMessages serviceID handler t =
     t\<lparr>lt_serviceMessage := AList.update serviceID handler (lt_serviceMessage t)\<rparr>"

definition lt_UnsubscribeServiceMessages :: "string \<Rightarrow> 'h LocalTransport \<Rightarrow> 'h LocalTransport" where
  "lt_UnsubscribeServiceMessages serviceID t =
     t\<lparr>lt_serviceMessage := AList.delete serviceID (lt_serviceMessage t)\<rparr>"

definition lt_SubscribeGatewayMessages :: "string \<Rightarrow> 'h \<Rightarrow> 'h LocalTransport \<Rightarrow> 'h LocalTransport" where
  "lt_SubscribeGatewayMessages gatewayID handler t =
     t\<lparr>lt_gatewayMessage := AList.update gatewayID handler (lt_gatewayMessage t)\<rparr>"

definition lt_UnsubscribeGatewayMessages :: "string \<Rightarrow> 'h LocalTransport \<Rightarrow> 'h LocalTransport" where
  "lt_UnsubscribeGatewayMessages gatewayID t =
     t\<lparr>lt_gatewayMessage := AList.delete gatewayID (lt_gatewayMessage t)\<rparr>"

definition lt_SubscribeSocketHeartbeats :: "string \<Rightarrow> 'h \<Rightarrow> 'h LocalTransport \<Rightarrow> 'h LocalTransport" where
  "lt_SubscribeSocketHeartbeats gatewayID handler t =
     t\<lparr>lt_socketHeartbeat := AList.update gatewayID handler (lt_socketHeartbeat t)\<rparr>"

definition lt_UnsubscribeSocketHeartbeats :: "string \<Rightarrow> 'h LocalTransport \<Rightarrow> 'h LocalTransport" where
  "lt_UnsubscribeSocketHeartbeats gatewayID t =
     t\<lparr>lt_socketHeartbeat := AList.delete gatewayID (lt_socketHeartbeat t)\<rparr>"

text \<open>
  The calls. A message handler may have to wait (a full mailbox), so its call may be \<open>None\<close>, and then
  so is the send.
\<close>

definition lt_MessageService :: "('w \<Rightarrow> 'h LocalTransport) \<Rightarrow> ('h \<Rightarrow> 'a \<Rightarrow> 'w \<Rightarrow> 'w option) \<Rightarrow> string \<Rightarrow> 'a \<Rightarrow> 'w
    \<Rightarrow> (go_error option \<times> 'w) option" where
  "lt_MessageService lt call serviceID args w =
     (case map_of (lt_serviceMessage (lt w)) serviceID of
        None \<Rightarrow> Some (Some (ErrOther (''no handler found for service '' @ serviceID)), w)
      | Some handler \<Rightarrow> map_option (Pair None) (call handler args w))"

definition lt_MessageGateway :: "('w \<Rightarrow> 'h LocalTransport) \<Rightarrow> ('h \<Rightarrow> 'a \<Rightarrow> 'w \<Rightarrow> 'w option) \<Rightarrow> string \<Rightarrow> 'a \<Rightarrow> 'w
    \<Rightarrow> (go_error option \<times> 'w) option" where
  "lt_MessageGateway lt call gatewayID args w =
     (case map_of (lt_gatewayMessage (lt w)) gatewayID of
        None \<Rightarrow> Some (Some (ErrOther (''no handler found for gateway '' @ gatewayID)), w)
      | Some handler \<Rightarrow> map_option (Pair None) (call handler args w))"

definition lt_HeartbeatSockets :: "('w \<Rightarrow> 'h LocalTransport) \<Rightarrow> ('h \<Rightarrow> string \<Rightarrow> string list \<Rightarrow> 'w \<Rightarrow> string list)
    \<Rightarrow> string \<Rightarrow> string \<Rightarrow> string list \<Rightarrow> 'w \<Rightarrow> go_error + string list" where
  "lt_HeartbeatSockets lt call gatewayID serviceID socketIDs w =
     (case map_of (lt_socketHeartbeat (lt w)) gatewayID of
        None \<Rightarrow> Inl (ErrOther (''gateway '' @ gatewayID @ '' not available''))
      | Some handler \<Rightarrow> Inr (call handler serviceID socketIDs w))"

end
