(* ===== verification/LocalTransportProps.thy ===== *)
theory LocalTransportProps
  imports LocalTransport
begin

text \<open>
  Properties of the in-process transport: the contract of a registry of broadcast handlers as a locale,
  its three interpretations, and runs of subscriptions and cancellations against the subscriptions that
  a caller sees as live.
\<close>

lemma handlerID_Suc:
  fixes x :: handlerID
  assumes "x \<noteq> - 1"
  shows "unat (x + 1) = Suc (unat x)" "x < x + 1" "0 < x + 1"
proof -
  have "1 + x \<noteq> 0" using assms by (metis add.commute add_eq_0_iff2)
  then show "unat (x + 1) = Suc (unat x)" using unatSuc [of x] by (simp add: add.commute)
  then show "x < x + 1" "0 < x + 1" by (simp_all add: word_less_nat_alt)
qed

section \<open>The contract of a broadcast\<close>

locale broadcast =
  fixes registry :: "'t \<Rightarrow> (handlerID, 'h) gomap"
    and subscribe :: "'h \<Rightarrow> 't \<Rightarrow> handlerID \<times> 't"
    and unsubscribe :: "handlerID \<Rightarrow> 't \<Rightarrow> 't"
    and last_id :: "'t \<Rightarrow> handlerID"
  assumes registry_ok: "gomap_ok (registry t) \<Longrightarrow> gomap_ok (registry (snd (subscribe h t)))"
      "gomap_ok (registry t) \<Longrightarrow> gomap_ok (registry (unsubscribe k t))"
    and subscribe_law: "subscribe h t = (k, t') \<Longrightarrow> k = last_id t + 1 \<and> last_id t' = k
      \<and> map_of (registry t') = (map_of (registry t))(k \<mapsto> h)"
    and unsubscribe_law: "map_of (registry (unsubscribe k t)) = (map_of (registry t))(k := None)"
      "last_id (unsubscribe k t) = last_id t"
begin

text \<open>As long as the counter has not wrapped around, a subscription disturbs no other one.\<close>

definition below :: "'t \<Rightarrow> bool" where
  "below t \<longleftrightarrow> gomap_ok (registry t) \<and> (\<forall>k h. map_of (registry t) k = Some h \<longrightarrow> 0 < k \<and> k \<le> last_id t)"

lemma subscribe_fresh:
  assumes "below t" "last_id t \<noteq> - 1" "subscribe h t = (k, t')"
  shows "map_of (registry t) k = None" "below t'" "0 < k"
proof -
  note law = subscribe_law [OF assms(3)]
  note less = handlerID_Suc(2,3) [OF assms(2)]
  with law assms(1) show "map_of (registry t) k = None"
    unfolding below_def by (metis leD not_None_eq)
  show "0 < k" using law less by simp
  with law less assms(1) registry_ok(1) [of t h] assms(3) show "below t'"
    unfolding below_def by auto
qed

lemma unsubscribe_below: "below t \<Longrightarrow> below (unsubscribe k t)"
  using registry_ok(2) unsubscribe_law unfolding below_def by auto

end

interpretation gateway_announcements: broadcast lt_gatewayAnnounce lt_SubscribeGatewayAnnouncements
    lt_UnsubscribeGatewayAnnouncements lt_nextHandlerID
  by unfold_locales
    (auto simp: lt_SubscribeGatewayAnnouncements_def lt_UnsubscribeGatewayAnnouncements_def registerHandlerID_def Let_def)

interpretation service_announcements: broadcast lt_serviceAnnounce lt_SubscribeServiceAnnouncements
    lt_UnsubscribeServiceAnnouncements lt_nextHandlerID
  by unfold_locales
    (auto simp: lt_SubscribeServiceAnnouncements_def lt_UnsubscribeServiceAnnouncements_def registerHandlerID_def Let_def)

interpretation socket_closures: broadcast lt_socketClosed lt_SubscribeSocketClosures
    lt_UnsubscribeSocketClosures lt_nextHandlerID
  by unfold_locales
    (auto simp: lt_SubscribeSocketClosures_def lt_UnsubscribeSocketClosures_def registerHandlerID_def Let_def)

section \<open>Runs\<close>

text \<open>
  A caller subscribes to a stream, and later cancels one of its subscriptions (the serve context of the
  j-th subscription ends). The state carries what each subscription's closure captured.
\<close>

datatype stream =
    GatewayAnnouncements
  | ServiceAnnouncements
  | SocketClosures
  | ServiceMessages string
  | GatewayMessages string
  | SocketHeartbeats string

datatype 'h lt_op = Sub stream 'h | Cancel nat

fun lt_subscribe :: "stream \<Rightarrow> 'h \<Rightarrow> 'h LocalTransport \<Rightarrow> handlerID \<times> 'h LocalTransport" where
  "lt_subscribe GatewayAnnouncements h t = lt_SubscribeGatewayAnnouncements h t"
| "lt_subscribe ServiceAnnouncements h t = lt_SubscribeServiceAnnouncements h t"
| "lt_subscribe SocketClosures h t = lt_SubscribeSocketClosures h t"
| "lt_subscribe (ServiceMessages x) h t = (0, lt_SubscribeServiceMessages x h t)"
| "lt_subscribe (GatewayMessages x) h t = (0, lt_SubscribeGatewayMessages x h t)"
| "lt_subscribe (SocketHeartbeats x) h t = (0, lt_SubscribeSocketHeartbeats x h t)"

fun lt_cancel :: "stream \<Rightarrow> handlerID \<Rightarrow> 'h LocalTransport \<Rightarrow> 'h LocalTransport" where
  "lt_cancel GatewayAnnouncements k t = lt_UnsubscribeGatewayAnnouncements k t"
| "lt_cancel ServiceAnnouncements k t = lt_UnsubscribeServiceAnnouncements k t"
| "lt_cancel SocketClosures k t = lt_UnsubscribeSocketClosures k t"
| "lt_cancel (ServiceMessages x) k t = lt_UnsubscribeServiceMessages x t"
| "lt_cancel (GatewayMessages x) k t = lt_UnsubscribeGatewayMessages x t"
| "lt_cancel (SocketHeartbeats x) k t = lt_UnsubscribeSocketHeartbeats x t"

fun lt_step :: "'h lt_op \<Rightarrow> 'h LocalTransport \<times> (stream \<times> handlerID) list
    \<Rightarrow> 'h LocalTransport \<times> (stream \<times> handlerID) list" where
  "lt_step (Sub s h) (t, subs) = (case lt_subscribe s h t of (k, t') \<Rightarrow> (t', subs @ [(s, k)]))"
| "lt_step (Cancel j) (t, subs) = (if j < length subs then (lt_cancel (fst (subs ! j)) (snd (subs ! j)) t, subs) else (t, subs))"

definition lt_run :: "'h lt_op list \<Rightarrow> 'h LocalTransport" where
  "lt_run ops = fst (fold lt_step ops (lt_New, []))"

text \<open>What the caller sees: its subscriptions in order, and those it has cancelled.\<close>

fun caller_step :: "'h lt_op \<Rightarrow> (stream \<times> 'h) list \<times> nat set \<Rightarrow> (stream \<times> 'h) list \<times> nat set" where
  "caller_step (Sub s h) (subs, dead) = (subs @ [(s, h)], dead)"
| "caller_step (Cancel j) (subs, dead) = (subs, if j < length subs then insert j dead else dead)"

definition caller_run :: "'h lt_op list \<Rightarrow> (stream \<times> 'h) list \<times> nat set" where
  "caller_run ops = fold caller_step ops ([], {})"

definition live_subs :: "stream \<Rightarrow> 'h lt_op list \<Rightarrow> nat set" where
  "live_subs s ops = (case caller_run ops of (subs, dead) \<Rightarrow> {j. j < length subs \<and> fst (subs ! j) = s \<and> j \<notin> dead})"

fun broadcast_registry :: "stream \<Rightarrow> 'h LocalTransport \<Rightarrow> (handlerID, 'h) gomap option" where
  "broadcast_registry GatewayAnnouncements t = Some (lt_gatewayAnnounce t)"
| "broadcast_registry ServiceAnnouncements t = Some (lt_serviceAnnounce t)"
| "broadcast_registry SocketClosures t = Some (lt_socketClosed t)"
| "broadcast_registry _ t = None"

text \<open>The laws of the three registries, for a stream as a value.\<close>

lemmas lt_defs = lt_SubscribeGatewayAnnouncements_def lt_SubscribeServiceAnnouncements_def
  lt_SubscribeSocketClosures_def lt_SubscribeServiceMessages_def lt_SubscribeGatewayMessages_def
  lt_SubscribeSocketHeartbeats_def registerHandlerID_def Let_def lt_UnsubscribeGatewayAnnouncements_def
  lt_UnsubscribeServiceAnnouncements_def lt_UnsubscribeSocketClosures_def lt_UnsubscribeServiceMessages_def
  lt_UnsubscribeGatewayMessages_def lt_UnsubscribeSocketHeartbeats_def

lemma subscribe_same:
  assumes "lt_subscribe s h t = (k, t')" "broadcast_registry s t = Some m"
  shows "k = lt_nextHandlerID t + 1" "lt_nextHandlerID t' = lt_nextHandlerID t + 1"
    "broadcast_registry s t' = Some (AList.update k h m)"
  using assms by (cases s; auto simp: lt_defs)+

lemma subscribe_addressed:
  assumes "lt_subscribe s h t = (k, t')" "broadcast_registry s t = None"
  shows "lt_nextHandlerID t' = lt_nextHandlerID t" "broadcast_registry s t' = None"
  using assms by (cases s; auto simp: lt_defs)+

lemma subscribe_other: "lt_subscribe s h t = (k, t') \<Longrightarrow> s' \<noteq> s \<Longrightarrow> broadcast_registry s' t' = broadcast_registry s' t"
  by (cases s; cases s'; auto simp: lt_defs)

lemma cancel_cases:
  "broadcast_registry s (lt_cancel s k t) = map_option (AList.delete k) (broadcast_registry s t)"
  "lt_nextHandlerID (lt_cancel s k t) = lt_nextHandlerID t"
  by (cases s; auto simp: lt_defs)+

lemma cancel_other: "s' \<noteq> s \<Longrightarrow> broadcast_registry s' (lt_cancel s k t) = broadcast_registry s' t"
  by (cases s; cases s'; auto simp: lt_defs)

definition lt_ok :: "'h LocalTransport \<Rightarrow> bool" where
  "lt_ok t \<longleftrightarrow> gateway_announcements.below t \<and> service_announcements.below t \<and> socket_closures.below t"

lemma lt_ok_registry:
  "lt_ok t \<longleftrightarrow> (\<forall>s m. broadcast_registry s t = Some m \<longrightarrow>
     gomap_ok m \<and> (\<forall>k h. map_of m k = Some h \<longrightarrow> 0 < k \<and> k \<le> lt_nextHandlerID t))"
proof
  assume "lt_ok t"
  then show "\<forall>s m. broadcast_registry s t = Some m \<longrightarrow>
     gomap_ok m \<and> (\<forall>k h. map_of m k = Some h \<longrightarrow> 0 < k \<and> k \<le> lt_nextHandlerID t)"
    unfolding lt_ok_def gateway_announcements.below_def service_announcements.below_def socket_closures.below_def
    by (intro allI, rename_tac s m, case_tac s) auto
next
  assume a: "\<forall>s m. broadcast_registry s t = Some m \<longrightarrow>
     gomap_ok m \<and> (\<forall>k h. map_of m k = Some h \<longrightarrow> 0 < k \<and> k \<le> lt_nextHandlerID t)"
  show "lt_ok t"
    using a [rule_format, of GatewayAnnouncements] a [rule_format, of ServiceAnnouncements]
      a [rule_format, of SocketClosures]
    unfolding lt_ok_def gateway_announcements.below_def service_announcements.below_def socket_closures.below_def
    by simp
qed

lemma stream_fresh:
  assumes "lt_ok t" "lt_nextHandlerID t \<noteq> - 1" "lt_subscribe s h t = (k, t')" "broadcast_registry s t = Some m"
  shows "map_of m k = None \<and> 0 < k \<and> lt_nextHandlerID t < k"
proof -
  have "map_of m k = None \<and> 0 < k"
    using assms gateway_announcements.subscribe_fresh [of t h k t'] service_announcements.subscribe_fresh [of t h k t']
      socket_closures.subscribe_fresh [of t h k t']
    by (cases s) (auto simp: lt_ok_def)
  then show ?thesis using subscribe_same [OF assms(3,4)] handlerID_Suc(2) [OF assms(2)] by simp
qed

section \<open>The registries against the live subscriptions\<close>

definition is_broadcast :: "stream \<Rightarrow> bool" where
  "is_broadcast s \<longleftrightarrow> s \<in> {GatewayAnnouncements, ServiceAnnouncements, SocketClosures}"

lemma is_broadcast_registry: "(\<exists>m. broadcast_registry s t = Some m) \<longleftrightarrow> is_broadcast s"
  by (cases s) (auto simp: is_broadcast_def)

definition same_handlers :: "stream \<Rightarrow> (handlerID, 'h) gomap \<Rightarrow> (stream \<times> handlerID) list
    \<Rightarrow> (stream \<times> 'h) list \<Rightarrow> nat set \<Rightarrow> bool" where
  "same_handlers s m subs all dead \<longleftrightarrow> (\<forall>k h. map_of m k = Some h \<longleftrightarrow>
     (\<exists>j<length all. all ! j = (s, h) \<and> snd (subs ! j) = k \<and> j \<notin> dead))"

definition ids_distinct :: "(stream \<times> handlerID) list \<Rightarrow> bool" where
  "ids_distinct subs \<longleftrightarrow> (\<forall>i<length subs. \<forall>j<length subs.
     fst (subs ! i) = fst (subs ! j) \<and> is_broadcast (fst (subs ! i)) \<and> snd (subs ! i) = snd (subs ! j) \<longrightarrow> i = j)"

definition run_rel :: "'h LocalTransport \<times> (stream \<times> handlerID) list \<Rightarrow> (stream \<times> 'h) list \<times> nat set \<Rightarrow> bool" where
  "run_rel c a \<longleftrightarrow> (case c of (t, subs) \<Rightarrow> case a of (all, dead) \<Rightarrow>
     lt_ok t \<and> map fst subs = map fst all \<and> unat (lt_nextHandlerID t) \<le> length all
     \<and> (\<forall>j<length subs. is_broadcast (fst (subs ! j)) \<longrightarrow> snd (subs ! j) \<le> lt_nextHandlerID t)
     \<and> ids_distinct subs \<and> (\<forall>j\<in>dead. j < length all)
     \<and> (\<forall>s m. broadcast_registry s t = Some m \<longrightarrow> same_handlers s m subs all dead))"

lemma run_relI:
  assumes "lt_ok t" "map fst subs = map fst all" "unat (lt_nextHandlerID t) \<le> length all"
    "\<And>j. j < length subs \<Longrightarrow> is_broadcast (fst (subs ! j)) \<Longrightarrow> snd (subs ! j) \<le> lt_nextHandlerID t"
    "ids_distinct subs" "\<And>j. j \<in> dead \<Longrightarrow> j < length all"
    "\<And>s m. broadcast_registry s t = Some m \<Longrightarrow> same_handlers s m subs all dead"
  shows "run_rel (t, subs) (all, dead)"
  using assms by (simp add: run_rel_def)

lemma run_relD:
  assumes "run_rel (t, subs) (all, dead)"
  shows "lt_ok t" "map fst subs = map fst all" "length subs = length all" "unat (lt_nextHandlerID t) \<le> length all"
    "\<And>j. j < length subs \<Longrightarrow> is_broadcast (fst (subs ! j)) \<Longrightarrow> snd (subs ! j) \<le> lt_nextHandlerID t"
    "ids_distinct subs" "\<And>j. j \<in> dead \<Longrightarrow> j < length all"
    "\<And>s m. broadcast_registry s t = Some m \<Longrightarrow> same_handlers s m subs all dead"
  using assms by (auto simp: run_rel_def dest: map_eq_imp_length_eq)

lemma same_handlers_other:
  assumes "same_handlers s m subs all dead" "s' \<noteq> s" "length subs = length all" "\<And>j. j \<in> dead \<Longrightarrow> j < length all"
  shows "same_handlers s m (subs @ [(s', k)]) (all @ [(s', h)]) dead"
  using assms unfolding same_handlers_def by (auto simp: nth_append less_Suc_eq; metis)

lemma same_handlers_Sub:
  assumes "same_handlers s m subs all dead" "length subs = length all" "\<And>j. j \<in> dead \<Longrightarrow> j < length all"
    and "map_of m k = None"
  shows "same_handlers s (AList.update k h m) (subs @ [(s, k)]) (all @ [(s, h)]) dead"
proof -
  have none: "\<not> (j < length all \<and> all ! j = (s, h') \<and> snd (subs ! j) = k \<and> j \<notin> dead)" for j h'
    using assms(1,4) unfolding same_handlers_def by (metis option.distinct(1))
  have "length all \<notin> dead" using assms(3) by blast
  then show ?thesis
    using assms(1,2) none unfolding same_handlers_def by (auto simp: nth_append less_Suc_eq; metis)
qed

lemma same_handlers_Cancel:
  assumes "same_handlers s m subs all dead" "ids_distinct subs" "map fst subs = map fst all" "is_broadcast s"
    and "j < length subs" "fst (subs ! j) = s"
  shows "same_handlers s (AList.delete (snd (subs ! j)) m) subs all (insert j dead)"
proof -
  have l: "length subs = length all" using assms(3) map_eq_imp_length_eq by blast
  have f: "fst (all ! i) = fst (subs ! i)" if "i < length all" for i using assms(3) l that by (metis nth_map)
  have "i = j" if "i < length all" "all ! i = (s, h)" "snd (subs ! i) = snd (subs ! j)" for i h
    using assms(2,4-6) that f [of i] l unfolding ids_distinct_def by (metis fst_conv)
  then show ?thesis using assms(1) unfolding same_handlers_def by auto
qed

lemma ids_distinct_snoc:
  assumes "ids_distinct subs" "\<And>j. j < length subs \<Longrightarrow> is_broadcast s \<Longrightarrow> fst (subs ! j) = s \<Longrightarrow> snd (subs ! j) \<noteq> k"
  shows "ids_distinct (subs @ [(s, k)])"
  using assms unfolding ids_distinct_def by (auto simp: nth_append less_Suc_eq)

lemma run_rel_Sub:
  assumes r: "run_rel (t, subs) (all, dead)" and "length all < 2 ^ 64 - 1" and sub: "lt_subscribe s h t = (k, t')"
  shows "run_rel (t', subs @ [(s, k)]) (all @ [(s, h)], dead)"
proof (cases "broadcast_registry s t")
  case None
  then have nb: "\<not> is_broadcast s" using is_broadcast_registry [of s t] by auto
  note sa = subscribe_addressed [OF sub None]
  have reg: "broadcast_registry s' t' = broadcast_registry s' t" for s'
    using sa(2) None subscribe_other [OF sub] by (cases "s' = s") auto
  have ne: "s' \<noteq> s" if "broadcast_registry s' t = Some m" for s' m using that None by auto
  show ?thesis
  proof (rule run_relI)
    show "lt_ok t'" using run_relD(1) [OF r] by (simp add: lt_ok_registry reg sa(1))
    show "same_handlers s' m (subs @ [(s, k)]) (all @ [(s, h)]) dead" if "broadcast_registry s' t' = Some m" for s' m
      using that run_relD(3,7,8) [OF r] ne [of s' m] by (intro same_handlers_other) (auto simp: reg)
  qed (use run_relD [OF r] nb sa(1) in \<open>auto simp: nth_append less_Suc_eq intro: ids_distinct_snoc\<close>)
next
  case (Some m0)
  have "lt_nextHandlerID t \<noteq> - 1"
  proof
    assume "lt_nextHandlerID t = - 1"
    then have "unat (lt_nextHandlerID t) = 2 ^ 64 - 1" by (simp add: unsigned_minus_1_eq_mask mask_eq_exp_minus_1)
    with run_relD(4) [OF r] assms(2) show False by simp
  qed
  note suc = handlerID_Suc [OF this] and fresh = stream_fresh [OF run_relD(1) [OF r] this sub Some]
  note ss = subscribe_same [OF sub Some]
  have reg: "broadcast_registry s' t' = (if s' = s then Some (AList.update k h m0) else broadcast_registry s' t)" for s'
    using ss(3) subscribe_other [OF sub] by auto
  have old: "gomap_ok m" "map_of m k' = Some h' \<Longrightarrow> 0 < k' \<and> k' \<le> lt_nextHandlerID t"
    if "broadcast_registry s' t = Some m" for s' m k' h'
    using run_relD(1) [OF r] that by (auto simp: lt_ok_registry)
  show ?thesis
  proof (rule run_relI)
    show "lt_ok t'"
      unfolding lt_ok_registry using old Some fresh ss(1,2)
      by (auto simp: reg split: if_splits intro: order_trans [OF _ less_imp_le [OF suc(2)]])
    show "same_handlers s' m (subs @ [(s, k)]) (all @ [(s, h)]) dead" if "broadcast_registry s' t' = Some m" for s' m
    proof (cases "s' = s")
      case True
      with that have "m = AList.update k h m0" by (simp add: reg)
      with True show ?thesis
        using run_relD(3,7,8) [OF r] Some fresh by (auto intro: same_handlers_Sub)
    next
      case False
      with that show ?thesis
        using run_relD(3,7,8) [OF r] by (intro same_handlers_other) (auto simp: reg)
    qed
    show "ids_distinct (subs @ [(s, k)])"
      using run_relD(5,6) [OF r] fresh by (intro ids_distinct_snoc) (auto dest: leD)
    show "snd ((subs @ [(s, k)]) ! j) \<le> lt_nextHandlerID t'"
      if "j < length (subs @ [(s, k)])" "is_broadcast (fst ((subs @ [(s, k)]) ! j))" for j
      using that run_relD(5) [OF r, of j] suc(2) ss(1,2) by (auto simp: nth_append less_Suc_eq split: if_splits)
  qed (use run_relD [OF r] suc(1) ss(2) in \<open>auto simp: less_Suc_eq\<close>)
qed

lemma run_rel_Cancel:
  assumes r: "run_rel (t, subs) (all, dead)" and "j < length subs"
  shows "run_rel (lt_cancel (fst (subs ! j)) (snd (subs ! j)) t, subs) (all, insert j dead)"
proof -
  let ?s = "fst (subs ! j)" and ?k = "snd (subs ! j)"
  have reg: "broadcast_registry s' (lt_cancel ?s ?k t)
      = (if s' = ?s then map_option (AList.delete ?k) (broadcast_registry s' t) else broadcast_registry s' t)" for s'
    by (simp add: cancel_cases(1) cancel_other)
  show ?thesis
  proof (rule run_relI)
    show "lt_ok (lt_cancel ?s ?k t)"
      using run_relD(1) [OF r] unfolding lt_ok_registry reg cancel_cases(2)
      by (auto split: if_splits)
    show "same_handlers s m subs all (insert j dead)" if "broadcast_registry s (lt_cancel ?s ?k t) = Some m" for s m
    proof (cases "s = ?s")
      case True
      with that obtain m0 where "broadcast_registry s t = Some m0" "m = AList.delete ?k m0" by (auto simp: reg)
      then show ?thesis
        using True run_relD(2,6,8) [OF r] assms(2) is_broadcast_registry [of s t]
        by (auto intro!: same_handlers_Cancel)
    next
      case False
      with that have "same_handlers s m subs all dead" using run_relD(8) [OF r] by (simp add: reg)
      moreover have "fst (all ! j) \<noteq> s" using False run_relD(2,3) [OF r] assms(2) by (metis nth_map)
      ultimately show ?thesis unfolding same_handlers_def by auto
    qed
  qed (use run_relD [OF r] assms(2) in \<open>auto simp: cancel_cases(2)\<close>)
qed

lemma map_filter_all: "(\<And>x. x \<in> set xs \<Longrightarrow> g x = Some (h x)) \<Longrightarrow> List.map_filter g xs = map h xs"
  by (induction xs) (simp_all add: List.map_filter_simps)

lemma run_rel_run:
  assumes "length ops < 2 ^ 64"
  shows "run_rel (fold lt_step ops (lt_New, [])) (caller_run ops)
    \<and> length (fst (caller_run ops)) \<le> length ops"
  using assms
proof (induction ops rule: rev_induct)
  case Nil
  show ?case
    by (auto simp: caller_run_def intro!: run_relI)
      (auto simp: lt_ok_registry lt_New_def same_handlers_def ids_distinct_def elim: broadcast_registry.elims)
next
  case (snoc op ops)
  obtain t subs all dead where s: "fold lt_step ops (lt_New, []) = (t, subs)" "caller_run ops = (all, dead)"
    by (metis surj_pair)
  with snoc have r: "run_rel (t, subs) (all, dead)" and l: "length all \<le> length ops" "length all < 2 ^ 64 - 1" by auto
  have step: "caller_run (ops @ [op]) = caller_step op (all, dead)" using s by (simp add: caller_run_def)
  show ?case
  proof (cases op)
    case (Sub x h)
    obtain k t' where "lt_subscribe x h t = (k, t')" by fastforce
    with run_rel_Sub [OF r l(2) this] Sub s l(1) step show ?thesis by simp
  next
    case (Cancel j)
    show ?thesis
      using run_rel_Cancel [OF r, of j] run_relD(3) [OF r] r Cancel s l(1) step by simp
  qed
qed

section \<open>Properties\<close>

text \<open>
  C36. A broadcast reaches exactly the live subscribers: after any sequence of subscriptions and
  cancellations of all six streams (fewer than 2 to the 64, so the handler counter does not wrap), the
  handlers that an announcement or a closure broadcast calls are those of the stream's subscriptions
  that have not been cancelled, each exactly once, in whatever order Go ranges over the map.
\<close>

theorem local_broadcast_exact:
  assumes "length ops < 2 ^ 64" and "range_ok rg" and "broadcast_registry s (lt_run ops) = Some m"
  shows "\<exists>js. distinct js \<and> set js = live_subs s ops
    \<and> snapshot rg m = map (\<lambda>j. snd (fst (caller_run ops) ! j)) js"
proof -
  obtain t subs all dead where st: "fold lt_step ops (lt_New, []) = (t, subs)" "caller_run ops = (all, dead)"
    by (metis surj_pair)
  with run_rel_run [OF assms(1)] have r: "run_rel (t, subs) (all, dead)" by simp
  have m: "broadcast_registry s t = Some m" using assms(3) st(1) by (simp add: lt_run_def)
  note same = run_relD(8) [OF r m, unfolded same_handlers_def, rule_format]
  have gok: "gomap_ok m" using run_relD(1) [OF r] m by (auto simp: lt_ok_registry)
  let ?ks = "rg 0 (gomap_keys m)"
  have "\<forall>k\<in>set ?ks. \<exists>j<length all. fst (all ! j) = s \<and> snd (subs ! j) = k \<and> j \<notin> dead \<and> map_of m k = Some (snd (all ! j))"
  proof
    fix k assume "k \<in> set ?ks"
    then have "k \<in> set (gomap_keys m)" using assms(2) by simp
    then obtain h where "map_of m k = Some h" by (meson go_get_key)
    then show "\<exists>j<length all. fst (all ! j) = s \<and> snd (subs ! j) = k \<and> j \<notin> dead \<and> map_of m k = Some (snd (all ! j))"
      using same [of k h] by fastforce
  qed
  then obtain f where f: "\<And>k. k \<in> set ?ks \<Longrightarrow> f k < length all \<and> fst (all ! f k) = s \<and> snd (subs ! f k) = k
      \<and> f k \<notin> dead \<and> map_of m k = Some (snd (all ! f k))" by (metis bchoice)
  have "snapshot rg m = map (\<lambda>k. snd (all ! f k)) ?ks"
    unfolding snapshot_def using f by (intro map_filter_all) blast
  moreover have "distinct (map f ?ks)"
  proof -
    have "inj_on f (set ?ks)" by (rule inj_onI) (metis f)
    with gok assms(2) show ?thesis by (simp add: distinct_map gomap_ok_def)
  qed
  moreover have "set (map f ?ks) = live_subs s ops"
  proof
    show "set (map f ?ks) \<subseteq> live_subs s ops" using f st(2) by (auto simp: live_subs_def)
    show "live_subs s ops \<subseteq> set (map f ?ks)"
    proof
      fix j assume "j \<in> live_subs s ops"
      then have j: "j < length all" "fst (all ! j) = s" "j \<notin> dead" by (auto simp: live_subs_def st(2))
      then have mj: "map_of m (snd (subs ! j)) = Some (snd (all ! j))" using same [of "snd (subs ! j)"] by (metis prod.collapse)
      then have k: "snd (subs ! j) \<in> set ?ks" using assms(2) map_of_in_keys by (metis range_ok_set)
      have fa: "fst (subs ! i) = fst (all ! i)" if "i < length all" for i
        using run_relD(2,3) [OF r] that by (metis nth_map)
      have "f (snd (subs ! j)) = j"
        using run_relD(6) [OF r] f [OF k] j fa run_relD(3) [OF r] is_broadcast_registry [of s t] m
        unfolding ids_distinct_def by metis
      with k show "j \<in> set (map f ?ks)" by force
    qed
  qed
  ultimately show ?thesis using st(2) by (intro exI [of _ "map f ?ks"]) (simp add: comp_def)
qed

theorem local_broadcast_exact_witness:
  "\<exists>js. distinct js \<and> set js = live_subs SocketClosures [Sub SocketClosures ''a'', Sub (ServiceMessages ''s1'') ''b'',
        Sub SocketClosures ''c'', Cancel 0]
    \<and> snapshot rg_id [(2, ''c'')] = map (\<lambda>j. snd (fst (caller_run [Sub SocketClosures ''a'', Sub (ServiceMessages ''s1'') ''b'',
        Sub SocketClosures ''c'', Cancel 0]) ! j)) js"
proof (rule local_broadcast_exact [OF _ range_ok_id])
  show "broadcast_registry SocketClosures (lt_run [Sub SocketClosures ''a'', Sub (ServiceMessages ''s1'') ''b'',
        Sub SocketClosures ''c'', Cancel 0]) = Some [(2, ''c'')]"
    by code_simp
qed simp

end
