(* ===== verification/SharedDescriptor.thy ===== *)
theory SharedDescriptor
  imports LocalTransportProps IndexerInv
begin

text \<open>
  Two gateways on one in-process transport. \<open>AnnounceService\<close> hands the same \<open>*ServiceDescriptor\<close> to
  every gateway, and \<open>SetServiceDescriptor\<close> stores that pointer, so the indexes of the gateways share
  the descriptor although each has a mutex of its own.
\<close>

record 'p gw_pair =
  gp_heap :: "'p heap"
  gp_index :: "nat \<Rightarrow> GatewayServiceIndexer"
  gp_lt :: "nat LocalTransport"

text \<open>The announcement handler of gateway \<open>i\<close>, for a service that announces to all gateways.\<close>

definition announce_to :: "int \<Rightarrow> nat \<Rightarrow> addr \<Rightarrow> 'p gw_pair \<Rightarrow> 'p gw_pair" where
  "announce_to now i d w = (case SetServiceDescriptor now d (gp_heap w, gp_index w i) of
     (h, r) \<Rightarrow> w\<lparr>gp_heap := h, gp_index := (gp_index w)(i := r)\<rparr>)"

definition map_in :: "nat \<Rightarrow> string \<Rightarrow> string \<Rightarrow> 'p gw_pair \<Rightarrow> (string \<times> bool \<times> go_error option) \<times> 'p gw_pair" where
  "map_in i name k w = (case MapSocket name k (gp_heap w, gp_index w i) of
     (res, h, r) \<Rightarrow> (res, w\<lparr>gp_heap := h, gp_index := (gp_index w)(i := r)\<rparr>))"

definition two_gateways :: "'p heap \<Rightarrow> 'p gw_pair" where
  "two_gateways h = \<lparr>gp_heap = h, gp_index = (\<lambda>_. NewGatewayServiceIndexer),
     gp_lt = snd (lt_SubscribeServiceAnnouncements 2 (snd (lt_SubscribeServiceAnnouncements 1 lt_New)))\<rparr>"

definition after_announce :: "int \<Rightarrow> handlerID range_order \<Rightarrow> addr \<Rightarrow> 'p heap \<Rightarrow> 'p gw_pair" where
  "after_announce now rg d h = lt_AnnounceService gp_lt (announce_to now) rg d (two_gateways h)"

definition one_instance :: "string \<Rightarrow> addr \<Rightarrow> GatewayServiceIndexer" where
  "one_instance name d = \<lparr>closed = False, descriptors = [d], servicesByName = [(name, [d])], socketToInstance = []\<rparr>"

lemma announce_order:
  assumes "range_ok rg"
  shows "snapshot rg (lt_serviceAnnounce (gp_lt (two_gateways h))) \<in> {[1, 2], [2, 1]}"
proof -
  have r: "lt_serviceAnnounce (gp_lt (two_gateways h)) = [(1, 1), (2, 2)]"
    by (simp add: two_gateways_def lt_SubscribeServiceAnnouncements_def registerHandlerID_def Let_def lt_New_def)
  define xs where "xs = rg 0 [1, 2 :: handlerID]"
  have xs: "rg 0 [1, 2] = xs" "set xs = {1, 2}" "distinct xs" "length xs = 2"
    using assms by (simp_all add: xs_def)
  from xs(4) obtain a b where "xs = [a, b]" by (auto simp: length_Suc_conv numeral_2_eq_2)
  with xs have "xs = [1, 2] \<or> xs = [2, 1]" by auto
  then show ?thesis using xs(1) by (auto simp: snapshot_def r List.map_filter_simps)
qed

lemma announce_new:
  assumes "gp_index w i = NewGatewayServiceIndexer"
  shows "announce_to now i d w = w\<lparr>gp_heap := (gp_heap w)(d := (gp_heap w d)\<lparr>sd_LastSeenAt := Some now\<rparr>),
    gp_index := (gp_index w)(i := one_instance (sd_Name (gp_heap w d)) d)\<rparr>"
  using assms by (simp add: announce_to_def SetServiceDescriptor_def NewGatewayServiceIndexer_def one_instance_def Let_def)

lemma after_announce_eq:
  assumes "range_ok rg"
  shows "gp_heap (after_announce now rg d h) = h(d := (h d)\<lparr>sd_LastSeenAt := Some now\<rparr>)"
    "gp_index (after_announce now rg d h) 1 = one_instance (sd_Name (h d)) d"
    "gp_index (after_announce now rg d h) 2 = one_instance (sd_Name (h d)) d"
proof -
  have "gp_index (two_gateways h) = (\<lambda>_. NewGatewayServiceIndexer)" "gp_heap (two_gateways h) = h"
    by (simp_all add: two_gateways_def)
  with announce_order [OF assms, of h]
  show "gp_heap (after_announce now rg d h) = h(d := (h d)\<lparr>sd_LastSeenAt := Some now\<rparr>)"
    "gp_index (after_announce now rg d h) 1 = one_instance (sd_Name (h d)) d"
    "gp_index (after_announce now rg d h) 2 = one_instance (sd_Name (h d)) d"
    by (auto simp: after_announce_def lt_AnnounceService_def announce_new)
qed

lemma one_instance_ok:
  assumes "sd_Name (h d) \<noteq> ''''" "sd_ID (h d) \<noteq> ''''" "name = sd_Name (h d)"
  shows "gsi_ok (h, one_instance name d) \<longleftrightarrow> sd_socketIDs (h d) = []"
  using assms
  by (auto simp: gsi_ok_def maps_ok_def lists_ok_def pins_ok_def one_instance_def insts_def pinned_def pinned_in_def
    sockets_ok_def gomap_ok_def go_get_def go_has_def)

text \<open>
  C37. Gateways on one local transport corrupt each other's indexes: once a service has announced itself
  to two gateways, both indexes are consistent and hold the same pointer; as soon as a client of the
  first gateway is mapped to the instance, the descriptor in the second gateway's index lists the
  client's socket, which the second gateway has neither open nor pinned, so the consistency of its
  index and the counts of its load balancing are lost, without any call to the second gateway.
\<close>

theorem shared_descriptor_corrupts:
  assumes "range_ok rg" and "sd_Name (h d) \<noteq> ''''" "sd_ID (h d) \<noteq> ''''" "sd_socketIDs (h d) = []"
    and "w1 = after_announce now rg d h" and "map_in 1 (sd_Name (h d)) k w1 = (res, w2)"
  shows "gsi_ok (gp_heap w1, gp_index w1 1) \<and> gsi_ok (gp_heap w1, gp_index w1 2)
    \<and> res = (sd_ID (h d), True, None)
    \<and> gp_index w2 2 = gp_index w1 2 \<and> descriptors (gp_index w2 2) = [d] \<and> sd_socketIDs (gp_heap w2 d) = [k]
    \<and> pinned (gp_index w2 2) k = Map.empty \<and> \<not> gsi_ok (gp_heap w2, gp_index w2 2)"
proof -
  note eq = after_announce_eq [OF assms(1), of now d h, folded assms(5)]
  have ok: "gsi_ok (gp_heap w1, gp_index w1 i)" if "i = 1 \<or> i = 2" for i
  proof -
    have "gp_index w1 i = one_instance (sd_Name (h d)) d" using that eq(2,3) by blast
    moreover have "sd_Name (gp_heap w1 d) = sd_Name (h d)" "sd_ID (gp_heap w1 d) = sd_ID (h d)"
      "sd_socketIDs (gp_heap w1 d) = []" using eq(1) assms(4) by simp_all
    ultimately show ?thesis using one_instance_ok [of "gp_heap w1" d] assms(2,3) by simp
  qed
  have "MapSocket (sd_Name (h d)) k (gp_heap w1, gp_index w1 1) = ((sd_ID (h d), True, None),
      (gp_heap w1)(d := (gp_heap w1 d)\<lparr>sd_socketIDs := [k]\<rparr>),
      (one_instance (sd_Name (h d)) d)\<lparr>socketToInstance := [(k, [(sd_Name (h d), sd_ID (h d))])]\<rparr>)"
    unfolding eq(1,2) using assms(4) by (simp add: MapSocket_def one_instance_def go_get_def go_has_def Let_def)
  then have w2: "res = (sd_ID (h d), True, None)" "gp_index w2 2 = gp_index w1 2"
    "gp_heap w2 = (gp_heap w1)(d := (gp_heap w1 d)\<lparr>sd_socketIDs := [k]\<rparr>)"
    using assms(6) by (auto simp: map_in_def)
  have i2: "gp_index w2 2 = one_instance (sd_Name (h d)) d" using w2(2) eq(3) by (rule trans)
  have "sd_Name (gp_heap w2 d) = sd_Name (h d)" "sd_ID (gp_heap w2 d) = sd_ID (h d)" "sd_socketIDs (gp_heap w2 d) = [k]"
    by (simp_all add: w2(3) eq(1))
  then have "\<not> gsi_ok (gp_heap w2, gp_index w2 2)" "sd_socketIDs (gp_heap w2 d) = [k]"
    unfolding i2 using one_instance_ok [of "gp_heap w2" d] assms(2,3) by simp_all
  moreover have "descriptors (gp_index w2 2) = [d]" "pinned (gp_index w2 2) k = Map.empty"
    unfolding i2 by (simp_all add: one_instance_def pinned_def pinned_in_def go_get_def)
  ultimately show ?thesis using ok w2(1,2) by blast
qed

definition demo_heap :: "string heap" where
  "demo_heap = (\<lambda>_. \<lparr>sd_Name = ''chat'', sd_ID = ''s1'', sd_GatewayNames = [], sd_RouteDescriptors = [],
     sd_LastSeenAt = None, sd_socketIDs = []\<rparr>)"

theorem shared_descriptor_corrupts_witness:
  "\<exists>res w2. map_in 1 ''chat'' ''k1'' (after_announce 5 rg_id 0 demo_heap) = (res, w2)
    \<and> sd_socketIDs (gp_heap w2 0) = [''k1''] \<and> \<not> gsi_ok (gp_heap w2, gp_index w2 2)"
proof -
  obtain res w2 where "map_in 1 (sd_Name (demo_heap 0)) ''k1'' (after_announce 5 rg_id 0 demo_heap) = (res, w2)"
    by fastforce
  with shared_descriptor_corrupts [OF range_ok_id _ _ _ refl this] show ?thesis by (auto simp: demo_heap_def)
qed

end
