(* ===== verification/KeepAlive.thy ===== *)
theory KeepAlive
  imports Registry ServiceInv Gateway
begin

text \<open>
  The keep-alive protocol between a gateway and a service: the gateway's announcements list the instances
  it saw recently (three intervals), a service that is not listed announces itself again, and the
  gateway prunes instances it has not seen for five intervals. The system has a clock; the
  assumptions on the environment are bounds: an announcement tick is at most \<open>J\<close> late, and an
  announcement of the service reaches the gateway at most \<open>L\<close> after the tick that caused it.
\<close>

section \<open>The timed system\<close>

text \<open>
  \<open>ka_due\<close> is the latest time of the next announcement tick; \<open>ka_fly\<close> holds the announcements of the
  service on their way, each with the latest time of its arrival.
\<close>

record ('p, 'v) ka =
  ka_now :: int
  ka_due :: int
  ka_index :: "'p istate"
  ka_svc :: "('p, 'v) sworld"
  ka_fly :: "(int \<times> 'p ServiceDescriptor) list"

text \<open>The announcements a service has emitted between two states.\<close>

definition announced :: "('p, 'v) sworld \<Rightarrow> ('p, 'v) sworld \<Rightarrow> 'p ServiceDescriptor list" where
  "announced w w' = List.map_filter (\<lambda>e. case e of AnnounceService d \<Rightarrow> Some d | _ \<Rightarrow> None)
     (drop (length (sw_out w)) (sw_out w'))"

text \<open>The IDs in the gateway's announcement at a tick, as \<open>announce_tick\<close> computes them.\<close>

definition listed_ids :: "int \<Rightarrow> int \<Rightarrow> 'p istate \<Rightarrow> string list" where
  "listed_ids now interval st = map (\<lambda>d. sd_ID (fst st d)) (FreshServiceDescriptors now (3 * interval) st)"

text \<open>
  What may happen to the index besides: announcements of other instances, mapping and unmapping of
  sockets, removal of other instances after failed sends, and ticks of the prune loop.
\<close>

fun undisturbed :: "string \<Rightarrow> int \<Rightarrow> int \<Rightarrow> 'p gsi_op \<Rightarrow> bool" where
  "undisturbed iid now interval (Announce t a sd) \<longleftrightarrow> sd_ID sd \<noteq> iid"
| "undisturbed iid now interval (Unset i) \<longleftrightarrow> i \<noteq> iid"
| "undisturbed iid now interval (Prune t threshold) \<longleftrightarrow> t = now \<and> threshold = 5 * interval"
| "undisturbed iid now interval (MapTo n s) \<longleftrightarrow> True"
| "undisturbed iid now interval (Unmap s) \<longleftrightarrow> True"
| "undisturbed iid now interval CloseIndex \<longleftrightarrow> False"

inductive ka_step :: "string \<Rightarrow> int \<Rightarrow> int \<Rightarrow> int \<Rightarrow> ('p, 'v) ka \<Rightarrow> ('p, 'v) ka \<Rightarrow> bool"
  for gatewayName I J L where
  ka_pass: "0 \<le> d \<Longrightarrow> ka_now s + d \<le> ka_due s \<Longrightarrow> \<forall>x\<in>set (ka_fly s). ka_now s + d \<le> fst x
     \<Longrightarrow> ka_step gatewayName I J L s (s\<lparr>ka_now := ka_now s + d\<rparr>)"
| ka_tick: "v = handleGatewayAnnounce gatewayName (listed_ids (ka_now s) I (ka_index s)) (ka_svc s)
     \<Longrightarrow> ka_step gatewayName I J L s (s\<lparr>ka_svc := v, ka_due := ka_now s + I + J,
          ka_fly := ka_fly s @ map (Pair (ka_now s + L)) (announced (ka_svc s) v)\<rparr>)"
| ka_arrive: "ka_fly s = xs @ (t, sd) # ys \<Longrightarrow> range_ok rg \<Longrightarrow> admissible (Announce (ka_now s) a sd) (ka_index s)
     \<Longrightarrow> ka_step gatewayName I J L s (s\<lparr>ka_fly := xs @ ys,
          ka_index := gsi_step rg (Announce (ka_now s) a sd) (ka_index s)\<rparr>)"
| ka_index: "range_ok rg \<Longrightarrow> admissible op (ka_index s) \<Longrightarrow> undisturbed (s_ID (sw_svc (ka_svc s))) (ka_now s) I op
     \<Longrightarrow> ka_step gatewayName I J L s (s\<lparr>ka_index := gsi_step rg op (ka_index s)\<rparr>)"
| ka_service: "svc_config (sw_svc v) = svc_config (sw_svc (ka_svc s)) \<Longrightarrow> ka_step gatewayName I J L s (s\<lparr>ka_svc := v\<rparr>)"

text \<open>The start: the service has just been registered, and nothing is on its way.\<close>

definition last_seen :: "string \<Rightarrow> 'p istate \<Rightarrow> int option" where
  "last_seen iid st = (case live (registry_of st) iid of Some (_, _, seen) \<Rightarrow> seen | None \<Rightarrow> None)"

definition ka_init :: "string \<Rightarrow> int \<Rightarrow> int \<Rightarrow> ('p, 'v) ka \<Rightarrow> bool" where
  "ka_init gatewayName I J s \<longleftrightarrow>
     gsi_ok (ka_index s) \<and> \<not> closed (snd (ka_index s)) \<and> ka_fly s = []
     \<and> last_seen (s_ID (sw_svc (ka_svc s))) (ka_index s) = Some (ka_now s)
     \<and> (s_GatewayNames (sw_svc (ka_svc s)) = [] \<or> gatewayName \<in> set (s_GatewayNames (sw_svc (ka_svc s))))
     \<and> ka_now s \<le> ka_due s \<and> ka_due s \<le> ka_now s + I + J"

section \<open>The invariant\<close>

definition ka_ok :: "string \<Rightarrow> int \<Rightarrow> int \<Rightarrow> int \<Rightarrow> ('p, 'v) ka \<Rightarrow> bool" where
  "ka_ok gatewayName I J L s \<longleftrightarrow> (let iid = s_ID (sw_svc (ka_svc s)) in
     gsi_ok (ka_index s) \<and> \<not> closed (snd (ka_index s))
     \<and> (s_GatewayNames (sw_svc (ka_svc s)) = [] \<or> gatewayName \<in> set (s_GatewayNames (sw_svc (ka_svc s))))
     \<and> ka_now s \<le> ka_due s \<and> ka_due s \<le> ka_now s + I + J
     \<and> (\<forall>x\<in>set (ka_fly s). ka_now s \<le> fst x \<and> sd_ID (snd x) = iid)
     \<and> (\<exists>t. last_seen iid (ka_index s) = Some t \<and> t \<le> ka_now s
          \<and> (ka_due s - (4 * I + J) \<le> t \<or> (\<exists>x\<in>set (ka_fly s). fst x - L - (4 * I + J) \<le> t))))"

lemma last_seen_live: "last_seen iid st = Some t \<Longrightarrow> \<exists>n routes. live (registry_of st) iid = Some (n, routes, Some t)"
  by (auto simp: last_seen_def simp del: registry_of_simps split: option.splits)

lemma last_seen_Announce:
  assumes "gsi_ok st" "\<not> closed (snd st)" "range_ok rg" "admissible (Announce now a sd) st"
  shows "last_seen iid (gsi_step rg (Announce now a sd) st) = (if sd_ID sd = iid then Some now else last_seen iid st)"
  using gsi_step_refines [OF assms]
  by cases (simp add: last_seen_def del: registry_of_simps)

text \<open>An undisturbed step keeps an instance that is not stale.\<close>

lemma last_seen_undisturbed:
  assumes "gsi_ok st" "\<not> closed (snd st)" "range_ok rg" "admissible op st"
    and "undisturbed iid now I op" "last_seen iid st = Some t" "now - t \<le> 5 * I"
  shows "last_seen iid (gsi_step rg op st) = Some t"
proof -
  obtain n routes where l: "live (registry_of st) iid = Some (n, routes, Some t)"
    using last_seen_live [OF assms(6)] by blast
  have "live (registry_of (gsi_step rg op st)) iid = live (registry_of st) iid"
    using gsi_step_refines [OF assms(1-4)]
  proof cases
    case (reg_prune now' threshold)
    then show ?thesis using assms(5,7) l by (auto simp: drop_instances_def stale_in_def simp del: registry_of_simps)
  qed (use assms(5) in \<open>auto simp: drop_instances_def simp del: registry_of_simps\<close>)
  with l show ?thesis by (simp add: last_seen_def del: registry_of_simps)
qed

lemma still_open:
  assumes "gsi_ok st" "range_ok rg" "last_seen iid (gsi_step rg op st) = Some t"
    and "admissible op st"
  shows "\<not> closed (snd (gsi_step rg op st))"
proof
  assume "closed (snd (gsi_step rg op st))"
  moreover have "gsi_ok (gsi_step rg op st)" using assms by (simp add: gsi_step_ok)
  ultimately have "descriptors (snd (gsi_step rg op st)) = []" by (simp add: gsi_ok_def maps_ok_def)
  then show False using assms(3) by (simp add: last_seen_def registry_of_def)
qed

lemma listed_iff:
  assumes "gsi_ok st" "\<not> closed (snd st)" "last_seen iid st = Some t"
  shows "iid \<in> set (listed_ids now I st) \<longleftrightarrow> now - t \<le> 3 * I"
proof -
  obtain h r where st: "st = (h, r)" by (cases st)
  have L: "lists_ok h r" using assms(1) by (simp add: st gsi_ok_pair)
  obtain n routes where "live (registry_of (h, r)) iid = Some (n, routes, Some t)"
    using last_seen_live [OF assms(3)] st by blast
  then obtain d where d: "d \<in> set (descriptors r)" "sd_ID (h d) = iid" "sd_LastSeenAt (h d) = Some t"
    unfolding live_registry [OF L] by auto
  then show ?thesis
    using assms(2) lists_ok_ID_inj [OF L] by (force simp: st listed_ids_def FreshServiceDescriptors_def is_fresh_def)
qed

lemma announced_handle:
  "announced w (handleGatewayAnnounce name ids w) =
     (if (s_GatewayNames (sw_svc w) = [] \<or> name \<in> set (s_GatewayNames (sw_svc w))) \<and> s_ID (sw_svc w) \<notin> set ids
      then [\<lparr>sd_Name = s_Name (sw_svc w), sd_ID = s_ID (sw_svc w), sd_GatewayNames = s_GatewayNames (sw_svc w),
        sd_RouteDescriptors = announced_routes (sw_svc w), sd_LastSeenAt = None, sd_socketIDs = []\<rparr>]
      else [])"
  by (auto simp: announced_def handleGatewayAnnounce_def doAnnounce_def svc_emit_def Let_def list_ex_iff
    List.map_filter_simps)

lemma handle_config: "svc_config (sw_svc (handleGatewayAnnounce name ids w)) = svc_config (sw_svc w)"
  by (simp add: handleGatewayAnnounce_def doAnnounce_def Let_def)

lemma ka_okD:
  assumes "ka_ok gatewayName I J L s"
  shows "gsi_ok (ka_index s)" "\<not> closed (snd (ka_index s))"
    "s_GatewayNames (sw_svc (ka_svc s)) = [] \<or> gatewayName \<in> set (s_GatewayNames (sw_svc (ka_svc s)))"
    "ka_now s \<le> ka_due s" "ka_due s \<le> ka_now s + I + J"
    "\<And>x. x \<in> set (ka_fly s) \<Longrightarrow> ka_now s \<le> fst x \<and> sd_ID (snd x) = s_ID (sw_svc (ka_svc s))"
    "\<exists>t. last_seen (s_ID (sw_svc (ka_svc s))) (ka_index s) = Some t \<and> t \<le> ka_now s
       \<and> (ka_due s - (4 * I + J) \<le> t \<or> (\<exists>x\<in>set (ka_fly s). fst x - L - (4 * I + J) \<le> t))"
  using assms by (simp_all add: ka_ok_def Let_def)

lemma ka_okI:
  assumes "gsi_ok (ka_index s)" "\<not> closed (snd (ka_index s))"
    "s_GatewayNames (sw_svc (ka_svc s)) = [] \<or> gatewayName \<in> set (s_GatewayNames (sw_svc (ka_svc s)))"
    "ka_now s \<le> ka_due s" "ka_due s \<le> ka_now s + I + J"
    "\<And>x. x \<in> set (ka_fly s) \<Longrightarrow> ka_now s \<le> fst x \<and> sd_ID (snd x) = s_ID (sw_svc (ka_svc s))"
    "last_seen (s_ID (sw_svc (ka_svc s))) (ka_index s) = Some t" "t \<le> ka_now s"
    "ka_due s - (4 * I + J) \<le> t \<or> (\<exists>x\<in>set (ka_fly s). fst x - L - (4 * I + J) \<le> t)"
  shows "ka_ok gatewayName I J L s"
  using assms by (simp add: ka_ok_def Let_def)

lemma svc_config_names: "svc_config s = svc_config t \<Longrightarrow> s_GatewayNames s = s_GatewayNames t"
  by (cases s; cases t; simp add: svc_config_def)

text \<open>The age of the service's entry stays within the prune threshold.\<close>

lemma ka_age:
  assumes "ka_ok gatewayName I J L s" "J + L \<le> I" "0 \<le> L"
  obtains t where "last_seen (s_ID (sw_svc (ka_svc s))) (ka_index s) = Some t" "ka_now s - t \<le> 4 * I + J + L"
    "ka_now s - t \<le> 5 * I" "t \<le> ka_now s"
    "ka_due s - (4 * I + J) \<le> t \<or> (\<exists>x\<in>set (ka_fly s). fst x - L - (4 * I + J) \<le> t)"
proof -
  obtain t where t: "last_seen (s_ID (sw_svc (ka_svc s))) (ka_index s) = Some t" "t \<le> ka_now s"
    "ka_due s - (4 * I + J) \<le> t \<or> (\<exists>x\<in>set (ka_fly s). fst x - L - (4 * I + J) \<le> t)"
    using ka_okD(7) [OF assms(1)] by blast
  have age: "ka_now s - t \<le> 4 * I + J + L"
    using t(3) ka_okD(4) [OF assms(1)] ka_okD(6) [OF assms(1)] assms(3) by fastforce
  then have "ka_now s - t \<le> 5 * I" using assms(2) by simp
  with age t show ?thesis using that by blast
qed

lemma ka_step_ok:
  assumes ok: "ka_ok gatewayName I J L s" and step: "ka_step gatewayName I J L s s'"
    and bounds: "0 \<le> I" "0 \<le> J" "0 \<le> L" "J + L \<le> I"
  shows "ka_ok gatewayName I J L s'"
proof -
  obtain t where t: "last_seen (s_ID (sw_svc (ka_svc s))) (ka_index s) = Some t" "ka_now s - t \<le> 5 * I" "t \<le> ka_now s"
    "ka_due s - (4 * I + J) \<le> t \<or> (\<exists>x\<in>set (ka_fly s). fst x - L - (4 * I + J) \<le> t)"
    using ka_age [OF ok bounds(4,3)] by metis
  note D = ka_okD [OF ok]
  from step show ?thesis
  proof cases
    case (ka_pass d)
    then show ?thesis using D t by (intro ka_okI [where t = t]) auto
  next
    case (ka_tick v)
    have cfg: "s_ID (sw_svc v) = s_ID (sw_svc (ka_svc s))" "s_GatewayNames (sw_svc v) = s_GatewayNames (sw_svc (ka_svc s))"
      using svc_config_sel(1) svc_config_names handle_config ka_tick(2) by blast+
    note listed = listed_iff [OF D(1,2) t(1), of "ka_now s" I]
    note ann = announced_handle [of "ka_svc s" gatewayName "listed_ids (ka_now s) I (ka_index s)", folded ka_tick(2)]
    have "ka_now s + I + J - (4 * I + J) \<le> t
      \<or> (\<exists>x\<in>set (ka_fly s @ map (Pair (ka_now s + L)) (announced (ka_svc s) v)). fst x - L - (4 * I + J) \<le> t)"
    proof (cases "ka_now s - t \<le> 3 * I")
      case False
      then have "announced (ka_svc s) v \<noteq> []" using listed D(3) by (auto simp: ann)
      moreover have "\<forall>x\<in>set (map (Pair (ka_now s + L)) (announced (ka_svc s) v)). fst x = ka_now s + L" by auto
      ultimately show ?thesis using t(4) D(4) by (cases "announced (ka_svc s) v") auto
    qed simp
    then show ?thesis
      using D t bounds cfg unfolding ka_tick(1)
      by (intro ka_okI [where t = t]) (auto simp: ann split: if_splits)
  next
    case (ka_arrive xs fl sd ys rg a)
    have sd: "sd_ID sd = s_ID (sw_svc (ka_svc s))" using D(6) [of "(fl, sd)"] ka_arrive(2) by simp
    note ls = last_seen_Announce [OF D(1,2) ka_arrive(3,4), of "s_ID (sw_svc (ka_svc s))"]
    show ?thesis
      unfolding ka_arrive(1)
    proof (rule ka_okI [where t = "ka_now s"])
      show "last_seen (s_ID (sw_svc (ka_svc (s\<lparr>ka_fly := xs @ ys,
          ka_index := gsi_step rg (Announce (ka_now s) a sd) (ka_index s)\<rparr>))))
          (ka_index (s\<lparr>ka_fly := xs @ ys, ka_index := gsi_step rg (Announce (ka_now s) a sd) (ka_index s)\<rparr>)) = Some (ka_now s)"
        using ls sd by simp
      show "\<not> closed (snd (ka_index (s\<lparr>ka_fly := xs @ ys,
          ka_index := gsi_step rg (Announce (ka_now s) a sd) (ka_index s)\<rparr>)))"
        using still_open [OF D(1) ka_arrive(3) _ ka_arrive(4)] ls sd by simp
    qed (use D bounds ka_arrive(2-4) gsi_step_ok [OF D(1) ka_arrive(3,4)] in auto)
  next
    case (ka_index rg op)
    note ls = last_seen_undisturbed [OF D(1,2) ka_index(2,3,4) t(1,2)]
    show ?thesis
      using D t bounds ls gsi_step_ok [OF D(1) ka_index(2,3)] still_open [OF D(1) ka_index(2) ls ka_index(3)]
      unfolding ka_index(1) by (intro ka_okI [where t = t]) auto
  next
    case (ka_service v)
    then show ?thesis
      using D t svc_config_sel(1) [OF ka_service(2)] svc_config_names [OF ka_service(2)]
      by (intro ka_okI [where t = t]) auto
  qed
qed

section \<open>Properties\<close>

interpretation keep_alive: invariant_machine "\<lambda>s. ka_init gatewayName I J s \<and> 0 \<le> I \<and> 0 \<le> J \<and> 0 \<le> L \<and> J + L \<le> I"
  "ka_step gatewayName I J L" "\<lambda>s. ka_ok gatewayName I J L s \<and> 0 \<le> I \<and> 0 \<le> J \<and> 0 \<le> L \<and> J + L \<le> I"
  for gatewayName I J L
proof
  fix s t :: "('a, 'b) ka"
  show "ka_ok gatewayName I J L s \<and> 0 \<le> I \<and> 0 \<le> J \<and> 0 \<le> L \<and> J + L \<le> I"
    if "ka_init gatewayName I J s \<and> 0 \<le> I \<and> 0 \<le> J \<and> 0 \<le> L \<and> J + L \<le> I"
    using that by (auto simp: ka_init_def intro!: ka_okI [where t = "ka_now s"])
  show "ka_ok gatewayName I J L t \<and> 0 \<le> I \<and> 0 \<le> J \<and> 0 \<le> L \<and> J + L \<le> I"
    if "ka_ok gatewayName I J L s \<and> 0 \<le> I \<and> 0 \<le> J \<and> 0 \<le> L \<and> J + L \<le> I" "ka_step gatewayName I J L s t"
    using that ka_step_ok by blast
qed

text \<open>
  C38. A reachable service is never pruned: from the moment it is registered, under any interleaving of
  announcement ticks, prune ticks, deliveries, socket mappings and removals of other instances, the
  gateway's index holds the instance, seen at most four intervals plus the delays ago, so it is
  never stale for the prune threshold of five intervals; the delays (tick lateness and announcement
  latency) only have to add up to at most one interval.
\<close>

theorem keep_alive_never_pruned:
  assumes "ka_init gatewayName I J s0" and "0 \<le> I" "0 \<le> J" "0 \<le> L" "J + L \<le> I"
    and "(ka_step gatewayName I J L)\<^sup>*\<^sup>* s0 s"
  shows "(\<exists>t. last_seen (s_ID (sw_svc (ka_svc s))) (ka_index s) = Some t
      \<and> t \<le> ka_now s \<and> ka_now s - t \<le> 4 * I + J + L)
    \<and> s_ID (sw_svc (ka_svc s)) \<notin> stale_in (ka_now s) (5 * I) (registry_of (ka_index s))"
proof -
  have ok: "ka_ok gatewayName I J L s" using keep_alive.reachable_inv [OF _ assms(6)] assms(1-5) by blast
  obtain t where t: "last_seen (s_ID (sw_svc (ka_svc s))) (ka_index s) = Some t" "ka_now s - t \<le> 4 * I + J + L"
    "ka_now s - t \<le> 5 * I" "t \<le> ka_now s"
    using ka_age [OF ok assms(5,4)] by metis
  moreover have "s_ID (sw_svc (ka_svc s)) \<notin> stale_in (ka_now s) (5 * I) (registry_of (ka_index s))"
    using last_seen_live [OF t(1)] t(3) by (auto simp: stale_in_def simp del: registry_of_simps)
  ultimately show ?thesis by blast
qed

definition demo_service :: "(string, nat) sworld" where
  "demo_service = \<lparr>sw_heap = (\<lambda>_. NewConnection '''' '''' \<lparr>ci_Headers = [], ci_RemoteAddr = ''''\<rparr> 0), sw_next = 0,
     sw_svc = NewService ''chat'' ''s1'' (Some [''/chat'']) 10 30 5 64, sw_out = []\<rparr>"

definition demo_announced :: "string ServiceDescriptor" where
  "demo_announced = \<lparr>sd_Name = ''chat'', sd_ID = ''s1'', sd_GatewayNames = [],
     sd_RouteDescriptors = [\<lparr>Pattern = ''/chat''\<rparr>], sd_LastSeenAt = None, sd_socketIDs = []\<rparr>"

definition demo_index :: "string istate" where
  "demo_index = gsi_step rg_id (Announce 0 0 demo_announced) ((\<lambda>_. demo_announced), NewGatewayServiceIndexer)"

definition demo_start :: "(string, nat) ka" where
  "demo_start = \<lparr>ka_now = 0, ka_due = 11, ka_index = demo_index, ka_svc = demo_service, ka_fly = []\<rparr>"

definition demo_later :: "(string, nat) ka" where
  "demo_later = demo_start\<lparr>ka_now := 10\<rparr>"

lemma demo_index_ok: "gsi_ok demo_index"
  unfolding demo_index_def
  by (rule gsi_step_ok [OF NewGatewayServiceIndexer_ok range_ok_id])
    (simp add: announce_ok_def demo_announced_def NewGatewayServiceIndexer_def)

lemma demo_seen: "last_seen ''s1'' demo_index = Some 0" "\<not> closed (snd demo_index)"
  by (simp_all add: demo_index_def last_seen_def SetServiceDescriptor_def NewGatewayServiceIndexer_def demo_announced_def Let_def)

theorem keep_alive_never_pruned_witness:
  "\<exists>s. (ka_step ''gw'' 10 1 2)\<^sup>*\<^sup>* demo_start s \<and> ka_now s = 10
    \<and> ''s1'' \<notin> stale_in 10 50 (registry_of (ka_index s))"
proof -
  let ?v = "handleGatewayAnnounce ''gw'' (listed_ids 10 10 demo_index) demo_service"
  let ?s1 = "demo_later\<lparr>ka_svc := ?v, ka_due := 21, ka_fly := map (Pair 12) (announced demo_service ?v)\<rparr>"
  let ?s2 = "?s1\<lparr>ka_index := gsi_step rg_id (Prune 10 50) demo_index\<rparr>"
  have "ka_step ''gw'' 10 1 2 demo_start demo_later"
    using ka_pass [of 10 demo_start "''gw''" 10 1 2] by (simp add: demo_start_def demo_later_def)
  moreover have "ka_step ''gw'' 10 1 2 demo_later ?s1"
    using ka_tick [of _ "''gw''" demo_later 10 1 2, OF refl] by (simp add: demo_start_def demo_later_def)
  moreover have "ka_step ''gw'' 10 1 2 ?s1 ?s2"
    using ka_index [of rg_id "Prune 10 50" ?s1 10 "''gw''" 1 2] by (simp add: demo_start_def demo_later_def)
  ultimately have run: "(ka_step ''gw'' 10 1 2)\<^sup>*\<^sup>* demo_start ?s2" by (meson converse_rtranclp_into_rtranclp rtranclp.rtrancl_refl)
  have init: "ka_init ''gw'' 10 1 demo_start"
    using demo_index_ok demo_seen by (simp add: ka_init_def demo_start_def demo_service_def NewService_def)
  have iid: "s_ID (sw_svc ?v) = ''s1''"
    using svc_config_sel(1) [OF handle_config, of "''gw''" "listed_ids 10 10 demo_index" demo_service]
    by (simp add: demo_service_def NewService_def)
  have "ka_now ?s2 = 10" by (simp add: demo_start_def demo_later_def)
  with keep_alive_never_pruned [OF init _ _ _ _ run] run iid show ?thesis by (intro exI [of _ ?s2]) auto
qed

end
