(* ===== verification/LocalSystem.thy ===== *)
theory LocalSystem
  imports LocalTransportProps GatewayProps ServiceProps
begin

text \<open>
  A gateway and services joined by the in-process transport: the handlers that \<open>Connect\<close> and \<open>Listen\<close>
  subscribe, called synchronously by the transport. A call the gateway makes on the transport runs
  the services' handlers; these touch only the services, so performing the gateway's calls in the order
  of its effects, after its handler, gives the state the code reaches.
\<close>

section \<open>The composed state\<close>

datatype party = TheGateway | TheService nat

record ('p, 'v) system =
  sys_lt :: "party LocalTransport"
  sys_gw :: "('p, 'v) gworld"
  sys_svc :: "nat \<Rightarrow> ('p, 'v) sworld"

text \<open>What the clock, the range statements and the readers of the mailboxes supply.\<close>

record sys_env =
  e_now :: int
  e_rg :: "string range_order"
  e_hrg :: "handlerID range_order"
  e_readers :: nat
  e_pick :: bool

definition set_svc :: "nat \<Rightarrow> ('p, 'v) sworld \<Rightarrow> ('p, 'v) system \<Rightarrow> ('p, 'v) system" where
  "set_svc j v s = s\<lparr>sys_svc := (sys_svc s)(j := v)\<rparr>"

definition call_closed :: "sys_env \<Rightarrow> party \<Rightarrow> string \<Rightarrow> Status \<Rightarrow> string \<Rightarrow> ('p, 'v) system \<Rightarrow> ('p, 'v) system" where
  "call_closed env p k status reason s = (case p of
       TheGateway \<Rightarrow> s\<lparr>sys_gw := handleSocketClosure (e_rg env) k status reason (sys_gw s)\<rparr>
     | TheService j \<Rightarrow> set_svc j (closeConnection (e_now env) k status reason (sys_svc s j)) s)"

definition call_message :: "sys_env \<Rightarrow> party \<Rightarrow> string \<times> string \<times> ConnectionInfo \<times> 'v SocketMessage
    \<Rightarrow> ('p, 'v) system \<Rightarrow> ('p, 'v) system option" where
  "call_message env p args s = (case args of (gatewayID, k, info, msg) \<Rightarrow>
     (case p of
        TheGateway \<Rightarrow> Some s
      | TheService j \<Rightarrow> map_option (\<lambda>v. set_svc j v s)
          (handleServiceMessage (e_readers env) (e_pick env) gatewayID k info msg (sys_svc s j))))"

definition broadcast_closed :: "sys_env \<Rightarrow> string \<Rightarrow> Status \<Rightarrow> string \<Rightarrow> ('p, 'v) system \<Rightarrow> ('p, 'v) system" where
  "broadcast_closed env k status reason s = lt_ClosedSocket sys_lt (call_closed env) (e_hrg env) k status reason s"

text \<open>The gateway's calls on the transport; \<open>None\<close> while a call waits for a full mailbox.\<close>

fun perform :: "sys_env \<Rightarrow> 'v gw_effect list \<Rightarrow> ('p, 'v) system \<Rightarrow> ('p, 'v) system option" where
  "perform env [] s = Some s"
| "perform env (ClosedSocket k status reason # fx) s = perform env fx (broadcast_closed env k status reason s)"
| "perform env (MessageService i gatewayID k info msg # fx) s =
     (case lt_MessageService sys_lt (call_message env) i (gatewayID, k, info, msg) s of
        None \<Rightarrow> None
      | Some (err, s1) \<Rightarrow> perform env fx s1)"
| "perform env (_ # fx) s = perform env fx s"

definition sys_gateway :: "sys_env \<Rightarrow> ('p, 'v) gworld \<Rightarrow> ('p, 'v) system \<Rightarrow> ('p, 'v) system option" where
  "sys_gateway env w s = perform env (drop (length (w_out (sys_gw s))) (w_out w)) (s\<lparr>sys_gw := w\<rparr>)"

text \<open>The error of \<open>MessageService\<close> for each instance, as the transport's registry determines it.\<close>

definition sys_send :: "('p, 'v) system \<Rightarrow> nat \<Rightarrow> string \<Rightarrow> go_error option" where
  "sys_send s n i = (if go_has (lt_serviceMessage (sys_lt s)) i then None
     else Some (ErrOther (''no handler found for service '' @ i)))"

text \<open>A client's message, a client's disconnect, and a reply that a router writes on a connection.\<close>

definition sys_receive :: "('p \<Rightarrow> string \<Rightarrow> bool) \<Rightarrow> sys_env \<Rightarrow> 'v Context \<Rightarrow> ('p, 'v) system \<Rightarrow> ('p, 'v) system option" where
  "sys_receive mtch env ctx s = (case Handle mtch (sys_send s) (e_rg env) ctx (sys_gw s) of
       None \<Rightarrow> None | Some w \<Rightarrow> sys_gateway env w s)"

definition sys_disconnect :: "sys_env \<Rightarrow> string \<Rightarrow> ('p, 'v) system \<Rightarrow> ('p, 'v) system option" where
  "sys_disconnect env k s = sys_gateway env (HandleClose (e_rg env) k (sys_gw s)) s"

definition call_reply :: "bool \<Rightarrow> sys_env \<Rightarrow> party \<Rightarrow> string \<times> 'v SocketMessage \<Rightarrow> ('p, 'v) system
    \<Rightarrow> ('p, 'v) system option" where
  "call_reply sendFails env p args s = (case p of
       TheGateway \<Rightarrow> sys_gateway env (handleGatewayMessage sendFails (e_rg env) (fst args) (snd args) (sys_gw s)) s
     | TheService j \<Rightarrow> Some s)"

definition sys_reply :: "bool \<Rightarrow> sys_env \<Rightarrow> nat \<Rightarrow> caddr \<Rightarrow> 'v SocketMessage \<Rightarrow> ('p, 'v) system
    \<Rightarrow> (go_error option \<times> ('p, 'v) system) option" where
  "sys_reply sendFails env j a msg s =
     (let c = sw_heap (sys_svc s j) a
      in case lt_MessageGateway sys_lt (call_reply sendFails env) (conn_gatewayID c) (conn_socketID c, msg) s of
           None \<Rightarrow> None
         | Some (err, s1) \<Rightarrow>
             Some (err, set_svc j (snd (svc_Write (\<lambda>_ _ _. err) msg a (sys_svc s1 j))) s1))"

section \<open>The closure broadcast\<close>

text \<open>What a closure of socket \<open>k\<close> makes of a service.\<close>

definition socket_closed_at :: "string \<Rightarrow> ('p, 'v) sworld \<Rightarrow> ('p, 'v) sworld \<Rightarrow> bool" where
  "socket_closed_at k v v' \<longleftrightarrow> svc_ok v' \<and> go_has (s_closedSockets (sw_svc v')) k
     \<and> s_connections (sw_svc v') = AList.delete k (s_connections (sw_svc v))
     \<and> sw_next v' = sw_next v \<and> sw_out v' = sw_out v \<and> svc_config (sw_svc v') = svc_config (sw_svc v)
     \<and> (\<forall>a. map_of (s_connections (sw_svc v)) k = Some a \<longrightarrow> conn_canceled (sw_heap v' a))
     \<and> (\<forall>a. map_of (s_connections (sw_svc v)) k \<noteq> Some a \<longrightarrow> sw_heap v' a = sw_heap v a)"

lemma socket_closed_at_close: "svc_ok v \<Longrightarrow> socket_closed_at k v (closeConnection now k status reason v)"
  by (simp add: socket_closed_at_def closeConnection_ok closeConnection_effect)

lemma socket_closed_at_again:
  assumes "socket_closed_at k v v1"
  shows "socket_closed_at k v (closeConnection now k status reason v1)"
proof -
  have ok: "svc_ok v1" and m: "map_of (s_connections (sw_svc v1)) k = None"
    using assms by (auto simp: socket_closed_at_def)
  show ?thesis
    using assms closeConnection_ok [OF ok, of now k status reason]
    unfolding socket_closed_at_def closeConnection_effect [OF ok] m by (simp add: delete_twice)
qed

lemma fold_call_closed:
  assumes "handleSocketClosure (e_rg env) k status reason (sys_gw s) = sys_gw s"
    and "\<And>j. svc_ok (sys_svc s j)"
  shows "sys_gw (fold (\<lambda>p. call_closed env p k status reason) ps s) = sys_gw s
    \<and> sys_lt (fold (\<lambda>p. call_closed env p k status reason) ps s) = sys_lt s
    \<and> (\<forall>j. if TheService j \<in> set ps
         then socket_closed_at k (sys_svc s j) (sys_svc (fold (\<lambda>p. call_closed env p k status reason) ps s) j)
         else sys_svc (fold (\<lambda>p. call_closed env p k status reason) ps s) j = sys_svc s j)"
proof (induction ps rule: rev_induct)
  case Nil
  then show ?case by simp
next
  case (snoc p ps)
  let ?s = "fold (\<lambda>p. call_closed env p k status reason) ps s"
  show ?case
  proof (cases p)
    case TheGateway
    with snoc assms(1) show ?thesis by (auto simp: call_closed_def)
  next
    case (TheService i)
    have "socket_closed_at k (sys_svc s i) (closeConnection (e_now env) k status reason (sys_svc ?s i))"
      using snoc assms(2) socket_closed_at_again socket_closed_at_close by metis
    with snoc TheService show ?thesis by (auto simp: call_closed_def set_svc_def)
  qed
qed

lemma handleSocketClosure_absent:
  "\<not> go_has (gw_sockets (w_gw w)) k \<Longrightarrow> handleSocketClosure rg k status reason w = w"
  by (simp add: handleSocketClosure_eq go_has_def split: option.split)

lemma snapshot_set:
  assumes "range_ok rg"
  shows "h \<in> set (snapshot rg m) \<longleftrightarrow> (\<exists>hid. map_of m hid = Some h)"
proof -
  have "hid \<in> set (rg 0 (gomap_keys m))" if "map_of m hid = Some h" for hid
    using that assms map_of_in_keys by (metis range_ok_set)
  then show ?thesis by (auto simp: snapshot_def List.map_filter_def) force
qed

lemma broadcast_closed_effect:
  assumes "range_ok (e_hrg env)" "\<not> go_has (gw_sockets (w_gw (sys_gw s))) k" "\<And>j. svc_ok (sys_svc s j)"
  shows "sys_gw (broadcast_closed env k status reason s) = sys_gw s"
    "sys_lt (broadcast_closed env k status reason s) = sys_lt s"
    "map_of (lt_socketClosed (sys_lt s)) hid = Some (TheService j)
      \<Longrightarrow> socket_closed_at k (sys_svc s j) (sys_svc (broadcast_closed env k status reason s) j)"
    "\<nexists>hid. map_of (lt_socketClosed (sys_lt s)) hid = Some (TheService j)
      \<Longrightarrow> sys_svc (broadcast_closed env k status reason s) j = sys_svc s j"
proof -
  note F = fold_call_closed [OF handleSocketClosure_absent [OF assms(2)] assms(3), where env = env and
      ps = "snapshot (e_hrg env) (lt_socketClosed (sys_lt s))" and status = status and reason = reason]
  have eq: "broadcast_closed env k status reason s
      = fold (\<lambda>p. call_closed env p k status reason) (snapshot (e_hrg env) (lt_socketClosed (sys_lt s))) s"
    by (simp add: broadcast_closed_def lt_ClosedSocket_def)
  show "sys_gw (broadcast_closed env k status reason s) = sys_gw s"
    "sys_lt (broadcast_closed env k status reason s) = sys_lt s"
    using F unfolding eq by blast+
  show "map_of (lt_socketClosed (sys_lt s)) hid = Some (TheService j)
      \<Longrightarrow> socket_closed_at k (sys_svc s j) (sys_svc (broadcast_closed env k status reason s) j)"
    using F unfolding eq snapshot_set [OF assms(1)] by metis
  show "\<nexists>hid. map_of (lt_socketClosed (sys_lt s)) hid = Some (TheService j)
      \<Longrightarrow> sys_svc (broadcast_closed env k status reason s) j = sys_svc s j"
    using F unfolding eq snapshot_set [OF assms(1)] by metis
qed

section \<open>Closing across the system\<close>

text \<open>
  C40. A disconnect reaches every service: when the client of an open socket disconnects, the gateway
  forgets the socket and its pins, and every service subscribed to closures (no other one is touched)
  cancels its connection for the socket if it has one, drops it from its table and records the closure;
  connections for other sockets are not affected, and a message still in flight is then dropped.
\<close>

theorem disconnect_reaches_services:
  assumes "range_ok (e_rg env)" "range_ok (e_hrg env)" "gw_ok (sys_gw s)" "\<And>j. svc_ok (sys_svc s j)"
    and "go_has (gw_sockets (w_gw (sys_gw s))) k"
  shows "\<exists>s'. sys_disconnect env k s = Some s' \<and> socket_gone k (sys_gw s')
    \<and> (\<forall>j. if \<exists>hid. map_of (lt_socketClosed (sys_lt s)) hid = Some (TheService j)
         then socket_closed_at k (sys_svc s j) (sys_svc s' j)
           \<and> (\<forall>gatewayID info msg. call_message env (TheService j) (gatewayID, k, info, msg) s' = Some s')
         else sys_svc s' j = sys_svc s j)"
proof -
  let ?w = "HandleClose (e_rg env) k (sys_gw s)"
  let ?s1 = "s\<lparr>sys_gw := ?w\<rparr>"
  let ?s' = "broadcast_closed env k StatusGoingAway ''Client disconnected'' ?s1"
  obtain sock where "map_of (gw_sockets (w_gw (sys_gw s))) k = Some sock" using assms(5) by (auto simp: go_has_def)
  then have run: "sys_disconnect env k s = Some ?s'"
    by (simp add: sys_disconnect_def sys_gateway_def HandleClose_def closeSocket_out)
  have gone: "socket_gone k ?w" unfolding HandleClose_def using assms(3,1) by (rule closeSocket_gone)
  then have "\<not> go_has (gw_sockets (w_gw (sys_gw ?s1))) k" by (simp add: socket_gone_def)
  moreover have "\<And>j. svc_ok (sys_svc ?s1 j)" using assms(4) by simp
  moreover note E = broadcast_closed_effect [OF assms(2), where s = ?s1 and k = k and status = StatusGoingAway
      and reason = "''Client disconnected''"]
  ultimately have B: "sys_gw ?s' = ?w"
    "map_of (lt_socketClosed (sys_lt s)) hid = Some (TheService j) \<Longrightarrow> socket_closed_at k (sys_svc s j) (sys_svc ?s' j)"
    "\<nexists>hid. map_of (lt_socketClosed (sys_lt s)) hid = Some (TheService j) \<Longrightarrow> sys_svc ?s' j = sys_svc s j" for hid j
    using E(1) E(3) [of hid j] E(4) [of j] by simp_all
  have dropped: "call_message env (TheService j) (gatewayID, k, info, msg) ?s' = Some ?s'"
    if "socket_closed_at k (sys_svc s j) (sys_svc ?s' j)" for j gatewayID info msg
    using that by (simp add: socket_closed_at_def call_message_def handleServiceMessage_def ensureConnection_def set_svc_def)
  show ?thesis
  proof (intro exI [of _ ?s'] conjI allI)
    fix j
    show "if \<exists>hid. map_of (lt_socketClosed (sys_lt s)) hid = Some (TheService j)
      then socket_closed_at k (sys_svc s j) (sys_svc ?s' j)
        \<and> (\<forall>gatewayID info msg. call_message env (TheService j) (gatewayID, k, info, msg) ?s' = Some ?s')
      else sys_svc ?s' j = sys_svc s j"
      using B(2) [of _ j] B(3) [of j] dropped [of j] by (metis (no_types))
  qed (use run gone B(1) in simp_all)
qed

section \<open>Delivery from end to end\<close>

text \<open>When every registered instance can be reached, a message is sent once, to an instance of the matched service.\<close>

lemma handle_loop_reaches:
  assumes "gw_ok w" "gw_gsi (w_gw w) \<noteq> None" "candidates w n \<noteq> {}" "\<And>i. i \<in> registered w \<Longrightarrow> send k i = None"
  obtains i w' where "handle_loop send rg ctx n k w = Some w'" "i \<in> registered w"
    "w_out w' = w_out w @ [message_effect i ctx w]" "gw_pin w' (ctx_SocketID ctx) n = Some i"
    "gw_sockets (w_gw w') = gw_sockets (w_gw w)" "gw_ID (w_gw w') = gw_ID (w_gw w)"
proof -
  note unfold = handle_loop.simps [of send rg ctx n k w]
  from assms(1,2) show ?thesis
  proof (cases rule: gw_MapSocket_cases [of w n "ctx_SocketID ctx"])
    case none
    with assms(3) show ?thesis by simp
  next
    case (old i)
    have i: "i \<in> registered w" using gw_pin_candidate [OF assms(1) old(2)] candidates_registered [OF assms(1)] by blast
    then have "i \<noteq> ''''" using registered_nonempty [OF assms(1)] by blast
    then have "handle_loop send rg ctx n k w = Some (emit (message_effect i ctx w) w)"
      by (subst unfold) (simp add: old(1) assms(4) [OF i] Let_def)
    then show ?thesis using that i old(2) by simp
  next
    case (new i w1)
    have i: "i \<in> registered w" using new(3) candidates_registered [OF assms(1)] by blast
    then have "i \<noteq> ''''" using registered_nonempty [OF assms(1)] by blast
    then have "handle_loop send rg ctx n k w = Some (emit (message_effect i ctx w1) w1)"
      by (subst unfold) (simp add: new(1) assms(4) [OF i] Let_def)
    moreover have "message_effect i ctx w1 = message_effect i ctx w" using new(9) by (simp add: message_effect_def)
    ultimately show ?thesis using that i new(4,7-9) by simp
  qed
qed

lemma Handle_reaches:
  assumes "gw_ok w" "range_ok rg" "CanHandle mtch rg ctx w" "\<And>i k. i \<in> registered w \<Longrightarrow> send k i = None"
  obtains i n w' where "Handle mtch send rg ctx w = Some w'" "i \<in> registered w"
    "w_out w' = w_out w @ [message_effect i ctx w]" "gw_pin w' (ctx_SocketID ctx) n = Some i"
    "map_of (gw_sockets (w_gw w')) (ctx_SocketID ctx) = Some (ctx_Socket ctx)" "gw_ID (w_gw w') = gw_ID (w_gw w)"
proof -
  let ?w = "register_socket ctx w"
  obtain r where r: "gw_gsi (w_gw w) = Some r"
    using assms(3) by (auto simp: CanHandle_def CanServePath_def split: option.splits)
  obtain n ok where n: "ResolveService mtch rg (ctx_Path ctx) (w_heap w, r) = (n, ok)" by fastforce
  have ok: "gsi_ok (w_heap w, r)" using assms(1) r by (simp add: gw_ok_def)
  have "serves mtch (w_heap w, r) n (ctx_Path ctx)"
    using ResolveService_sound [OF ok assms(2) n] assms(3) r n by (simp add: CanHandle_def CanServePath_def)
  then obtain d where "d \<in> set (insts r n)"
    using ok lists_ok_insts [of "w_heap w" r] by (auto simp: serves_def gsi_ok_pair)
  then have c: "candidates ?w n \<noteq> {}" using r by (auto simp: candidates_def)
  have reg: "registered ?w = registered w" by (simp add: registered_def r)
  have msg: "message_effect i ctx ?w = message_effect i ctx w" for i
    by (simp add: message_effect_def register_socket_def set_sockets_def)
  have gid: "gw_ID (w_gw ?w) = gw_ID (w_gw w)" by (simp add: register_socket_def set_sockets_def)
  have run: "Handle mtch send rg ctx w = handle_loop send (rg_from 1 rg) ctx n 0 ?w"
    using assms(3) r n by (simp add: Handle_CanHandle)
  show ?thesis
  proof (rule handle_loop_reaches [of ?w n send 0 "rg_from 1 rg" ctx])
    show "gw_ok ?w" using assms(1) by (rule register_socket_ok)
    show "gw_gsi (w_gw ?w) \<noteq> None" by (simp add: r)
    show "candidates ?w n \<noteq> {}" by (rule c)
    show "send 0 i = None" if "i \<in> registered ?w" for i using that assms(4) by (simp add: reg)
    fix i w'
    assume l: "handle_loop send (rg_from 1 rg) ctx n 0 ?w = Some w'" "i \<in> registered ?w"
      "w_out w' = w_out ?w @ [message_effect i ctx ?w]" "gw_pin w' (ctx_SocketID ctx) n = Some i"
      "gw_sockets (w_gw w') = gw_sockets (w_gw ?w)" "gw_ID (w_gw w') = gw_ID (w_gw ?w)"
    show thesis by (rule that [of w' i n]) (use l run reg msg gid in simp_all)
  qed
qed

text \<open>A connection takes a message when its mailbox has room and the socket was not closed.\<close>

lemma handleServiceMessage_delivers:
  assumes "svc_ok v" "\<not> go_has (s_closedSockets (sw_svc v)) k"
    and "0 < s_MailboxSize (sw_svc v)"
    and "\<And>a. map_of (s_connections (sw_svc v)) k = Some a \<Longrightarrow> can_send readers (sw_heap v a)"
  obtains a v' where "handleServiceMessage readers True gatewayID k info msg v = Some v'"
    "map_of (s_connections (sw_svc v')) k = Some a"
    "conn_mailbox (sw_heap v' a) = (case map_of (s_connections (sw_svc v)) k of
        Some b \<Rightarrow> conn_mailbox (sw_heap v b) | None \<Rightarrow> []) @ [msg]"
    "map_of (s_connections (sw_svc v)) k = None \<Longrightarrow> sw_out v' = sw_out v @ [HandleConnection info a]
       \<and> conn_gatewayID (sw_heap v' a) = gatewayID"
    "map_of (s_connections (sw_svc v)) k \<noteq> None \<Longrightarrow> map_of (s_connections (sw_svc v)) k = Some a \<and> sw_out v' = sw_out v
       \<and> conn_gatewayID (sw_heap v' a) = conn_gatewayID (sw_heap v a)"
    "conn_socketID (sw_heap v' a) = k"
proof (cases "map_of (s_connections (sw_svc v)) k")
  case None
  then show ?thesis
    using that assms(2,3)
    by (auto simp: handleServiceMessage_def ensureConnection_def HandleMessage_def can_send_def NewConnection_def Let_def)
next
  case (Some a)
  have "conn_socketID (sw_heap v a) = k" using svc_okD(3) [OF assms(1) Some] by blast
  then show ?thesis
    using that Some assms(2) assms(4) [OF Some]
    by (auto simp: handleServiceMessage_def ensureConnection_def HandleMessage_def)
qed

text \<open>
  What delivery relies on: each registered instance is a service on the transport, no service has seen
  the socket closed, its connections for the socket belong to this gateway and have room, and the
  gateway is subscribed for replies.
\<close>

definition deliverable :: "sys_env \<Rightarrow> string \<Rightarrow> ('p, 'v) system \<Rightarrow> bool" where
  "deliverable env k s \<longleftrightarrow>
     (\<forall>i\<in>registered (sys_gw s). \<exists>j. map_of (lt_serviceMessage (sys_lt s)) i = Some (TheService j))
     \<and> (\<forall>j. svc_ok (sys_svc s j) \<and> \<not> go_has (s_closedSockets (sw_svc (sys_svc s j))) k
          \<and> 0 < s_MailboxSize (sw_svc (sys_svc s j))
          \<and> (\<forall>a. map_of (s_connections (sw_svc (sys_svc s j))) k = Some a \<longrightarrow>
               can_send (e_readers env) (sw_heap (sys_svc s j) a)
               \<and> conn_gatewayID (sw_heap (sys_svc s j) a) = gw_ID (w_gw (sys_gw s))))
     \<and> map_of (lt_gatewayMessage (sys_lt s)) (gw_ID (w_gw (sys_gw s))) = Some TheGateway"

definition message_of :: "'v Context \<Rightarrow> 'v SocketMessage" where
  "message_of ctx = \<lparr>sm_Type = ctx_MessageType ctx, sm_RawData = ctx_RawData ctx, sm_Data = ctx_Data ctx,
     sm_Meta = ctx_Meta ctx\<rparr>"

definition info_of :: "'v Context \<Rightarrow> ConnectionInfo" where
  "info_of ctx = \<lparr>ci_Headers = ctx_Headers ctx, ci_RemoteAddr = ctx_RemoteAddr ctx\<rparr>"

definition mailbox_for :: "string \<Rightarrow> ('p, 'v) sworld \<Rightarrow> 'v SocketMessage list" where
  "mailbox_for k v = (case map_of (s_connections (sw_svc v)) k of Some a \<Rightarrow> conn_mailbox (sw_heap v a) | None \<Rightarrow> [])"

lemma delivers_to_gateway:
  assumes "svc_ok v" "\<not> go_has (s_closedSockets (sw_svc v)) k" "0 < s_MailboxSize (sw_svc v)"
    and "\<And>a. map_of (s_connections (sw_svc v)) k = Some a \<Longrightarrow> can_send readers (sw_heap v a)"
    and "\<And>a. map_of (s_connections (sw_svc v)) k = Some a \<Longrightarrow> conn_gatewayID (sw_heap v a) = g"
  shows "\<exists>v' a. handleServiceMessage readers True g k info msg v = Some v'
    \<and> map_of (s_connections (sw_svc v')) k = Some a \<and> conn_mailbox (sw_heap v' a) = mailbox_for k v @ [msg]
    \<and> conn_gatewayID (sw_heap v' a) = g \<and> conn_socketID (sw_heap v' a) = k"
proof (rule handleServiceMessage_delivers [OF assms(1-4), where gatewayID = g and info = info and msg = msg])
  fix a v'
  assume d: "handleServiceMessage readers True g k info msg v = Some v'" "map_of (s_connections (sw_svc v')) k = Some a"
    "conn_mailbox (sw_heap v' a) = (case map_of (s_connections (sw_svc v)) k of
        Some b \<Rightarrow> conn_mailbox (sw_heap v b) | None \<Rightarrow> []) @ [msg]"
    "map_of (s_connections (sw_svc v)) k = None \<Longrightarrow> sw_out v' = sw_out v @ [HandleConnection info a]
       \<and> conn_gatewayID (sw_heap v' a) = g"
    "map_of (s_connections (sw_svc v)) k \<noteq> None \<Longrightarrow> map_of (s_connections (sw_svc v)) k = Some a \<and> sw_out v' = sw_out v
       \<and> conn_gatewayID (sw_heap v' a) = conn_gatewayID (sw_heap v a)"
    "conn_socketID (sw_heap v' a) = k"
  have "conn_gatewayID (sw_heap v' a) = g"
  proof (cases "map_of (s_connections (sw_svc v)) k")
    case None
    with d(4) show ?thesis by blast
  next
    case (Some b)
    then have "map_of (s_connections (sw_svc v)) k = Some a" "conn_gatewayID (sw_heap v' a) = conn_gatewayID (sw_heap v a)"
      using d(5) by blast+
    with assms(5) [of a] show ?thesis by simp
  qed
  with d show ?thesis unfolding mailbox_for_def by blast
qed

lemma sys_receive_run:
  assumes "Handle mtch (sys_send s) (e_rg env) ctx (sys_gw s) = Some w'"
    and "w_out w' = w_out (sys_gw s) @ [message_effect i ctx (sys_gw s)]"
    and "map_of (lt_serviceMessage (sys_lt s)) i = Some (TheService j)"
    and "handleServiceMessage (e_readers env) (e_pick env) (gw_ID (w_gw (sys_gw s))) (ctx_SocketID ctx) (info_of ctx)
       (message_of ctx) (sys_svc s j) = Some v'"
  shows "sys_receive mtch env ctx s = Some (s\<lparr>sys_gw := w', sys_svc := (sys_svc s)(j := v')\<rparr>)"
  using assms by (simp add: sys_receive_def sys_gateway_def message_effect_def lt_MessageService_def call_message_def
    info_of_def message_of_def set_svc_def)

lemma sys_reply_run:
  assumes "map_of (lt_gatewayMessage (sys_lt s)) (conn_gatewayID (sw_heap (sys_svc s j) a)) = Some TheGateway"
    and "map_of (gw_sockets (w_gw (sys_gw s))) (conn_socketID (sw_heap (sys_svc s j) a)) = Some sock"
  shows "\<exists>s'. sys_reply False env j a reply s = Some (None, s') \<and> sys_svc s' = sys_svc s
    \<and> w_out (sys_gw s') = w_out (sys_gw s)
        @ [SocketSend sock (gw_SendTimeout (w_gw (sys_gw s))) (sm_Type reply) (sm_Data reply)]"
  using assms
  by (simp add: sys_reply_def lt_MessageGateway_def call_reply_def sys_gateway_def handleGatewayMessage_def Let_def
    svc_Write_eq set_svc_def emit_def)

text \<open>
  C39. A message goes from the client to one service and its reply comes back: when the path matches and
  the registered instances can be reached, handling the message ends with it as the last of the
  mailbox of the socket's connection at one registered instance, where it is preceded by what was
  there, and no other service is touched; and a reply that this service's router writes on the
  connection is sent, with its type and data, to the very client socket the message came from.
\<close>

theorem end_to_end_delivery:
  assumes "gw_ok (sys_gw s)" "range_ok (e_rg env)" "CanHandle mtch (e_rg env) ctx (sys_gw s)" "e_pick env"
    and "deliverable env (ctx_SocketID ctx) s"
  shows "\<exists>s' i j a. sys_receive mtch env ctx s = Some s' \<and> i \<in> registered (sys_gw s)
    \<and> map_of (lt_serviceMessage (sys_lt s)) i = Some (TheService j)
    \<and> map_of (s_connections (sw_svc (sys_svc s' j))) (ctx_SocketID ctx) = Some a
    \<and> conn_mailbox (sw_heap (sys_svc s' j) a) = mailbox_for (ctx_SocketID ctx) (sys_svc s j) @ [message_of ctx]
    \<and> (\<forall>j'. j' \<noteq> j \<longrightarrow> sys_svc s' j' = sys_svc s j')
    \<and> (\<forall>reply. \<exists>s''. sys_reply False env j a reply s' = Some (None, s'') \<and> sys_svc s'' = sys_svc s'
        \<and> w_out (sys_gw s'') = w_out (sys_gw s')
            @ [SocketSend (ctx_Socket ctx) (gw_SendTimeout (w_gw (sys_gw s'))) (sm_Type reply) (sm_Data reply)])"
proof -
  let ?k = "ctx_SocketID ctx" and ?g = "gw_ID (w_gw (sys_gw s))"
  note D = assms(5)[unfolded deliverable_def]
  have send: "sys_send s n i = None" if "i \<in> registered (sys_gw s)" for i n
    using D that by (force simp: sys_send_def go_has_def)
  obtain i n w' where h: "Handle mtch (sys_send s) (e_rg env) ctx (sys_gw s) = Some w'" "i \<in> registered (sys_gw s)"
    "w_out w' = w_out (sys_gw s) @ [message_effect i ctx (sys_gw s)]"
    "map_of (gw_sockets (w_gw w')) ?k = Some (ctx_Socket ctx)" "gw_ID (w_gw w') = ?g"
    by (rule Handle_reaches [OF assms(1-3), where send = "sys_send s", OF send]) blast+
  obtain j where j: "map_of (lt_serviceMessage (sys_lt s)) i = Some (TheService j)" using D h(2) by blast
  let ?v = "sys_svc s j"
  have v: "svc_ok ?v" "\<not> go_has (s_closedSockets (sw_svc ?v)) ?k" "0 < s_MailboxSize (sw_svc ?v)"
    "\<And>a. map_of (s_connections (sw_svc ?v)) ?k = Some a \<Longrightarrow> can_send (e_readers env) (sw_heap ?v a)"
    "\<And>a. map_of (s_connections (sw_svc ?v)) ?k = Some a \<Longrightarrow> conn_gatewayID (sw_heap ?v a) = ?g"
    using D by blast+
  have "\<exists>v' a. handleServiceMessage (e_readers env) True ?g ?k (info_of ctx) (message_of ctx) ?v = Some v'
    \<and> map_of (s_connections (sw_svc v')) ?k = Some a \<and> conn_mailbox (sw_heap v' a) = mailbox_for ?k ?v @ [message_of ctx]
    \<and> conn_gatewayID (sw_heap v' a) = ?g \<and> conn_socketID (sw_heap v' a) = ?k"
    using v(1-3) by (rule delivers_to_gateway) (fact v(4,5))+
  then obtain a v' where m: "handleServiceMessage (e_readers env) True ?g ?k (info_of ctx) (message_of ctx) ?v = Some v'"
    "map_of (s_connections (sw_svc v')) ?k = Some a"
    "conn_mailbox (sw_heap v' a) = mailbox_for ?k ?v @ [message_of ctx]"
    "conn_gatewayID (sw_heap v' a) = ?g" "conn_socketID (sw_heap v' a) = ?k" by blast
  let ?s' = "s\<lparr>sys_gw := w', sys_svc := (sys_svc s)(j := v')\<rparr>"
  have run: "sys_receive mtch env ctx s = Some ?s'"
    using sys_receive_run [OF h(1,3) j, where v' = v'] m(1) assms(4) by simp
  have "\<exists>s''. sys_reply False env j a reply ?s' = Some (None, s'') \<and> sys_svc s'' = sys_svc ?s'
        \<and> w_out (sys_gw s'') = w_out (sys_gw ?s')
            @ [SocketSend (ctx_Socket ctx) (gw_SendTimeout (w_gw (sys_gw ?s'))) (sm_Type reply) (sm_Data reply)]" for reply
    by (rule sys_reply_run) (use D m(4,5) h(4) in simp_all)
  with run h(2) j m(2,3) show ?thesis
    by (intro exI [of _ ?s'] exI [of _ i] exI [of _ j] exI [of _ a]) simp
qed

definition demo_svc :: "string \<Rightarrow> (string, unit) sworld" where
  "demo_svc iid = \<lparr>sw_heap = (\<lambda>_. NewConnection '''' '''' \<lparr>ci_Headers = [], ci_RemoteAddr = ''''\<rparr> 0), sw_next = 0,
     sw_svc = NewService ''chat'' iid None 10 30 5 64, sw_out = []\<rparr>"

definition demo_system :: "(string, unit) system" where
  "demo_system = \<lparr>sys_lt = lt_New\<lparr>lt_serviceMessage := [(''A'', TheService 0), (''B'', TheService 1)],
       lt_socketClosed := [(1, TheGateway), (2, TheService 0), (3, TheService 1)],
       lt_gatewayMessage := [(gw_ID (w_gw sample_gw), TheGateway)]\<rparr>,
     sys_gw = sample_gw, sys_svc = (\<lambda>j. demo_svc (if j = 0 then ''A'' else ''B''))\<rparr>"

definition demo_env :: sys_env where
  "demo_env = \<lparr>e_now = 5, e_rg = rg_id, e_hrg = rg_id, e_readers = 0, e_pick = True\<rparr>"

lemma demo_svc_ok: "svc_ok (demo_svc iid)"
  by (rule svc_okI) (simp_all add: demo_svc_def NewService_def handled_def go_has_def List.map_filter_simps)

lemma demo_deliverable: "deliverable demo_env (ctx_SocketID sample_ctx) demo_system"
proof -
  have "registered sample_gw = {''A'', ''B''}" by code_simp
  then show ?thesis
    using demo_svc_ok by (auto simp: deliverable_def demo_system_def demo_svc_def NewService_def go_has_def)
qed

theorem end_to_end_delivery_witness:
  "\<exists>s' j a. sys_receive (=) demo_env sample_ctx demo_system = Some s'
    \<and> map_of (s_connections (sw_svc (sys_svc s' j))) (ctx_SocketID sample_ctx) = Some a
    \<and> conn_mailbox (sw_heap (sys_svc s' j) a) = [message_of sample_ctx]"
proof -
  have "CanHandle (=) rg_id sample_ctx sample_gw" by code_simp
  then have can: "CanHandle (=) (e_rg demo_env) sample_ctx (sys_gw demo_system)"
    by (simp add: demo_env_def demo_system_def)
  have "gw_ok (sys_gw demo_system)" "range_ok (e_rg demo_env)" "e_pick demo_env"
    using sample_gw_ok by (simp_all add: demo_system_def demo_env_def)
  moreover have "mailbox_for k (sys_svc demo_system j) = []" for k j
    by (simp add: mailbox_for_def demo_system_def demo_svc_def NewService_def)
  ultimately show ?thesis using end_to_end_delivery [OF _ _ can _ demo_deliverable] by auto
qed

theorem disconnect_reaches_services_witness:
  "\<exists>s'. sys_disconnect demo_env ''s1'' (demo_system\<lparr>sys_gw := sample_open\<rparr>) = Some s' \<and> socket_gone ''s1'' (sys_gw s')"
proof -
  have "go_has (gw_sockets (w_gw sample_open)) ''s1''" by code_simp
  then show ?thesis
    using disconnect_reaches_services [of demo_env "demo_system\<lparr>sys_gw := sample_open\<rparr>" "''s1''"] sample_open_ok demo_svc_ok
    by (auto simp: demo_env_def demo_system_def)
qed

end
