(* ===== verification/GatewayThreads.thy ===== *)
theory GatewayThreads
  imports GatewayProps
begin

text \<open>
  The gateway's handlers as goroutines that interleave. A goroutine is the list of the atomic actions
  it has still to do: a critical section under the mutex of the socket table, one method of the index,
  one call of a socket or of the transport. An action may put further actions in front of the rest.
  The theories before this one run each handler to its end; here every interleaving of one run of the
  gateway is a sequence of steps, and the atomic handlers are shown to be among them.
\<close>

section \<open>Actions\<close>

datatype ('p, 'v) action =
    DoResolve "'v Context"
  | DoRegister "'v Context"
  | DoMap "'v Context" string
  | DoSend "'v Context" string string bool
  | DoUnset string
  | DoTake string Status string bool
  | DoClose socket Status string
  | DoNotify string Status string
  | DoUnmap string
  | DoLookup string "'v SocketMessage"
  | DoReply socket string "'v SocketMessage"
  | DoPrune int
  | DoAnnounce int addr "'p ServiceDescriptor"
  | DoAnnounceGateway int
  | DoCloseIndex
  | DoTakeAll Status string

text \<open>What \<open>closeSocket\<close> does, and what \<open>handleSocketClosure\<close> does when it need not notify.\<close>

definition close_actions :: "socket \<Rightarrow> string \<Rightarrow> Status \<Rightarrow> string \<Rightarrow> bool \<Rightarrow> ('p, 'v) action list" where
  "close_actions sock socketID status reason notify =
     DoClose sock status reason # (if notify then [DoNotify socketID status reason] else []) @ [DoUnmap socketID]"

text \<open>The loop of \<open>closeAllSockets\<close> over the map it took.\<close>

definition close_all_actions :: "(string, socket) gomap \<Rightarrow> string list \<Rightarrow> Status \<Rightarrow> string
    \<Rightarrow> ('p, 'v) action list" where
  "close_all_actions socks ids status reason =
     concat (map (\<lambda>s. case map_of socks s of None \<Rightarrow> []
       | Some sock \<Rightarrow> [DoClose sock status reason, DoUnmap s]) ids)"

text \<open>
  The actions that decide what comes next, each with the world after it. \<open>res\<close> is the error that the
  call of the transport or of the socket returns.
\<close>

definition act_resolve :: "('p \<Rightarrow> string \<Rightarrow> bool) \<Rightarrow> string range_order \<Rightarrow> 'v Context \<Rightarrow> ('p, 'v) gworld
    \<Rightarrow> ('p, 'v) action list \<times> ('p, 'v) gworld" where
  "act_resolve mtch rg ctx w =
     (case gw_gsi (w_gw w) of
        None \<Rightarrow> ([], emit CtxNext w)
      | Some r \<Rightarrow>
          (case ResolveService mtch rg (ctx_Path ctx) (w_heap w, r) of
             (serviceName, ok) \<Rightarrow>
               if \<not> ok then ([], emit CtxNext w) else ([DoRegister ctx, DoMap ctx serviceName], w)))"

definition act_map :: "'v Context \<Rightarrow> string \<Rightarrow> ('p, 'v) gworld \<Rightarrow> ('p, 'v) action list \<times> ('p, 'v) gworld" where
  "act_map ctx serviceName w =
     (case gw_MapSocket serviceName (ctx_SocketID ctx) w of
        ((serviceID, isNewConnection, err), w1) \<Rightarrow>
          if err \<noteq> None \<or> serviceID = ''''
          then ([DoTake (ctx_SocketID ctx) StatusGoingAway ''Service unreachable'' True], w1)
          else ([DoSend ctx serviceName serviceID isNewConnection], w1))"

definition act_send :: "go_error option \<Rightarrow> 'v Context \<Rightarrow> string \<Rightarrow> string \<Rightarrow> bool \<Rightarrow> ('p, 'v) gworld
    \<Rightarrow> ('p, 'v) action list \<times> ('p, 'v) gworld" where
  "act_send res ctx serviceName serviceID isNewConnection w =
     (let w1 = emit (message_effect serviceID ctx w) w
      in case res of
           None \<Rightarrow> ([], w1)
         | Some e \<Rightarrow>
             if errors_Is e ErrSlowConsumer
             then ([DoTake (ctx_SocketID ctx) StatusPolicyViolation ''Slow consumer'' True], w1)
             else ([DoUnset serviceID,
                    if \<not> isNewConnection
                    then DoTake (ctx_SocketID ctx) StatusGoingAway ''Service unreachable'' True
                    else DoMap ctx serviceName], w1))"

text \<open>The critical section of \<open>closeSocket\<close> and \<open>handleSocketClosure\<close>.\<close>

definition act_take :: "string \<Rightarrow> Status \<Rightarrow> string \<Rightarrow> bool \<Rightarrow> ('p, 'v) gworld
    \<Rightarrow> ('p, 'v) action list \<times> ('p, 'v) gworld" where
  "act_take socketID status reason notify w =
     (case map_of (gw_sockets (w_gw w)) socketID of
        None \<Rightarrow> ([], w)
      | Some sock \<Rightarrow> (close_actions sock socketID status reason notify,
          set_sockets (AList.delete socketID (gw_sockets (w_gw w))) w))"

definition act_reply :: "go_error option \<Rightarrow> socket \<Rightarrow> string \<Rightarrow> 'v SocketMessage \<Rightarrow> ('p, 'v) gworld
    \<Rightarrow> ('p, 'v) action list \<times> ('p, 'v) gworld" where
  "act_reply res sock socketID msg w =
     ((if res \<noteq> None then [DoTake socketID StatusInternalError ''Failed to send message'' True] else []),
      emit (SocketSend sock (gw_SendTimeout (w_gw w)) (sm_Type msg) (sm_Data msg)) w)"

definition act_prune :: "string range_order \<Rightarrow> int \<Rightarrow> ('p, 'v) gworld
    \<Rightarrow> ('p, 'v) action list \<times> ('p, 'v) gworld" where
  "act_prune rg now w =
     (case gw_gsi (w_gw w) of
        None \<Rightarrow> ([], w)
      | Some r \<Rightarrow>
          (case PruneStaleServices rg now (5 * gw_AnnounceInterval (w_gw w)) (w_heap w, r) of
             (_, affectedSocketIDs, h', r') \<Rightarrow>
               (map (\<lambda>s. DoTake s StatusGoingAway ''Service unreachable'' True) affectedSocketIDs,
                w\<lparr>w_heap := h', w_gw := (w_gw w)\<lparr>gw_gsi := Some r'\<rparr>\<rparr>)))"

fun act :: "('p \<Rightarrow> string \<Rightarrow> bool) \<Rightarrow> string range_order \<Rightarrow> go_error option \<Rightarrow> ('p, 'v) action
    \<Rightarrow> ('p, 'v) gworld \<Rightarrow> ('p, 'v) action list \<times> ('p, 'v) gworld" where
  "act mtch rg res (DoResolve ctx) w = act_resolve mtch rg ctx w"
| "act mtch rg res (DoRegister ctx) w = ([], register_socket ctx w)"
| "act mtch rg res (DoMap ctx serviceName) w = act_map ctx serviceName w"
| "act mtch rg res (DoSend ctx serviceName serviceID isNewConnection) w =
     act_send res ctx serviceName serviceID isNewConnection w"
| "act mtch rg res (DoUnset serviceID) w = ([], with_gsi (UnsetService rg serviceID) w)"
| "act mtch rg res (DoTake socketID status reason notify) w = act_take socketID status reason notify w"
| "act mtch rg res (DoClose sock status reason) w = ([], emit (SocketClose sock status reason) w)"
| "act mtch rg res (DoNotify socketID status reason) w = ([], emit (ClosedSocket socketID status reason) w)"
| "act mtch rg res (DoUnmap socketID) w = ([], with_gsi (UnmapSocket rg socketID) w)"
| "act mtch rg res (DoLookup socketID msg) w =
     (case map_of (gw_sockets (w_gw w)) socketID of
        None \<Rightarrow> ([], w) | Some sock \<Rightarrow> ([DoReply sock socketID msg], w))"
| "act mtch rg res (DoReply sock socketID msg) w = act_reply res sock socketID msg w"
| "act mtch rg res (DoPrune now) w = act_prune rg now w"
| "act mtch rg res (DoAnnounce now d sd) w =
     ([], handleServiceAnnouncement now d (w\<lparr>w_heap := (w_heap w)(d := sd)\<rparr>))"
| "act mtch rg res (DoAnnounceGateway now) w = ([], announce_tick now w)"
| "act mtch rg res DoCloseIndex w = ([], with_gsi (\<lambda>(h, r). (h, gsi_Close r)) w)"
| "act mtch rg res (DoTakeAll status reason) w =
     (close_all_actions (gw_sockets (w_gw w)) (rg 0 (gomap_keys (gw_sockets (w_gw w)))) status reason,
      set_sockets [] w)"

lemmas act_defs [simp] =
  act_resolve_def act_map_def act_send_def act_take_def act_reply_def act_prune_def

text \<open>The goroutine that handles an event; a new run is not one.\<close>

fun goroutine :: "('p, 'v) gw_event \<Rightarrow> ('p, 'v) action list" where
  "goroutine StartRun = []"
| "goroutine (Announcement now d sd) = [DoAnnounce now d sd]"
| "goroutine (MessageIn sendFails socketID msg) = [DoLookup socketID msg]"
| "goroutine (ClosureIn socketID status reason) = [DoTake socketID status reason False]"
| "goroutine (Receive send ctx) = [DoResolve ctx]"
| "goroutine (ClientClosed socketID) = [DoTake socketID StatusGoingAway ''Client disconnected'' True]"
| "goroutine (AnnounceTick now) = [DoAnnounceGateway now]"
| "goroutine (PruneTick now) = [DoPrune now]"
| "goroutine StopRun = [DoCloseIndex, DoTakeAll StatusGoingAway ''Gateway is stopping'']"

section \<open>Interleavings\<close>

text \<open>
  \<open>gt_taken\<close> and \<open>gt_entered\<close> record the sockets taken out of the table and the sockets that
  \<open>DoRegister\<close> put into it. With \<open>quiet\<close>, a message is mapped only while its socket is in the table
  or somebody who took it out has still to release its pins.
\<close>

record ('p, 'v) gsys =
  gt_w :: "('p, 'v) gworld"
  gt_run :: "('p, 'v) action list multiset"
  gt_taken :: "socket list"
  gt_entered :: "socket list"

definition to_unmap :: "('p, 'v) action list multiset \<Rightarrow> string \<Rightarrow> bool" where
  "to_unmap T s \<longleftrightarrow> (\<exists>g\<in>#T. DoUnmap s \<in> set g)"

fun act_allowed :: "bool \<Rightarrow> ('p, 'v) gsys \<Rightarrow> ('p, 'v) action \<Rightarrow> bool" where
  "act_allowed quiet s (DoAnnounce now d sd) \<longleftrightarrow> gw_admissible (Announcement now d sd :: ('p, 'v) gw_event) (gt_w s)"
| "act_allowed quiet s (DoMap ctx n) \<longleftrightarrow>
     (quiet \<longrightarrow> go_has (gw_sockets (w_gw (gt_w s))) (ctx_SocketID ctx) \<or> to_unmap (gt_run s) (ctx_SocketID ctx))"
| "act_allowed quiet s a \<longleftrightarrow> True"

fun takes :: "('p, 'v) action \<Rightarrow> ('p, 'v) gworld \<Rightarrow> socket list" where
  "takes (DoTake socketID status reason notify) w =
     (case map_of (gw_sockets (w_gw w)) socketID of None \<Rightarrow> [] | Some sock \<Rightarrow> [sock])"
| "takes (DoTakeAll status reason) w = map snd (gw_sockets (w_gw w))"
| "takes a w = []"

fun enters :: "('p, 'v) action \<Rightarrow> socket list" where
  "enters (DoRegister ctx) = [ctx_Socket ctx]"
| "enters a = []"

inductive gt_step :: "('p \<Rightarrow> string \<Rightarrow> bool) \<Rightarrow> bool \<Rightarrow> ('p, 'v) gsys \<Rightarrow> ('p, 'v) gsys \<Rightarrow> bool"
  for mtch quiet where
  gt_spawn: "gt_step mtch quiet s (s\<lparr>gt_run := add_mset (goroutine ev) (gt_run s)\<rparr>)"
| gt_act: "gt_run s = add_mset (a # rest) T \<Longrightarrow> range_ok rg \<Longrightarrow> act_allowed quiet s a
     \<Longrightarrow> act mtch rg res a (gt_w s) = (next_actions, w)
     \<Longrightarrow> gt_step mtch quiet s (s\<lparr>gt_w := w, gt_run := add_mset (next_actions @ rest) T,
          gt_taken := gt_taken s @ takes a (gt_w s), gt_entered := gt_entered s @ enters a\<rparr>)"
| gt_return: "gt_run s = add_mset [] T \<Longrightarrow> gt_step mtch quiet s (s\<lparr>gt_run := T\<rparr>)"

definition gt_new :: "('p, 'v) gsys \<Rightarrow> bool" where
  "gt_new s \<longleftrightarrow> gw_ok (gt_w s) \<and> gw_sockets (w_gw (gt_w s)) = [] \<and> w_out (gt_w s) = []
     \<and> gt_run s = {#} \<and> gt_taken s = [] \<and> gt_entered s = []"

section \<open>The index under interleavings\<close>

definition index_ok :: "('p, 'v) gworld \<Rightarrow> bool" where
  "index_ok w \<longleftrightarrow> gomap_ok (gw_sockets (w_gw w)) \<and> (\<forall>r. gw_gsi (w_gw w) = Some r \<longrightarrow> gsi_ok (w_heap w, r))"

lemma index_ok_frame [simp]:
  "index_ok (emit e w) = index_ok w" "gw_pin (emit e w) = gw_pin w" "gw_pin (set_sockets m w) = gw_pin w"
  "gw_pin (register_socket ctx w) = gw_pin w"
  by (simp_all add: index_ok_def gw_pin_def fun_eq_iff)

lemma index_ok_with_gsi:
  assumes "index_ok w" "\<And>r. gw_gsi (w_gw w) = Some r \<Longrightarrow> gsi_ok (w_heap w, r) \<Longrightarrow> gsi_ok (f (w_heap w, r))"
  shows "index_ok (with_gsi f w)"
  using assms by (cases "gw_gsi (w_gw w)") (auto simp: index_ok_def)

lemma gw_pin_with_gsi:
  "gw_pin (with_gsi f w) x n = (case gw_gsi (w_gw w) of None \<Rightarrow> None | Some r \<Rightarrow> pinned (snd (f (w_heap w, r))) x n)"
  by (simp add: gw_pin_def split: option.split)

text \<open>What an action may do to the index: keep it consistent, add a pin only when it maps.\<close>

definition act_effect :: "('p, 'v) action \<Rightarrow> ('p, 'v) gworld \<Rightarrow> ('p, 'v) gworld \<Rightarrow> bool" where
  "act_effect a w w' \<longleftrightarrow> index_ok w'
     \<and> (\<forall>x n i. gw_pin w' x n = Some i \<longrightarrow> gw_pin w x n = Some i \<or> (\<exists>ctx m. a = DoMap ctx m \<and> x = ctx_SocketID ctx))
     \<and> (\<forall>x n. a = DoUnmap x \<longrightarrow> gw_pin w' x n = None)"

lemma act_effectI:
  assumes "index_ok w'"
    and "\<And>x n i. gw_pin w' x n = Some i \<Longrightarrow> gw_pin w x n = Some i \<or> (\<exists>ctx m. a = DoMap ctx m \<and> x = ctx_SocketID ctx)"
    and "\<And>x n. a = DoUnmap x \<Longrightarrow> gw_pin w' x n = None"
  shows "act_effect a w w'"
  using assms by (auto simp: act_effect_def)

lemma act_effect_with_gsi:
  assumes "index_ok w" "\<And>r. gsi_ok (w_heap w, r) \<Longrightarrow> gw_gsi (w_gw w) = Some r \<Longrightarrow> gsi_ok (f (w_heap w, r))"
    and "\<And>r x n i. gsi_ok (w_heap w, r) \<Longrightarrow> gw_gsi (w_gw w) = Some r \<Longrightarrow> pinned (snd (f (w_heap w, r))) x n = Some i
      \<Longrightarrow> pinned r x n = Some i \<or> (\<exists>ctx m. a = DoMap ctx m \<and> x = ctx_SocketID ctx)"
    and "\<And>r x n. gsi_ok (w_heap w, r) \<Longrightarrow> a = DoUnmap x \<Longrightarrow> pinned (snd (f (w_heap w, r))) x n = None"
  shows "act_effect a w (with_gsi f w)"
proof (rule act_effectI)
  show "index_ok (with_gsi f w)" using assms(1,2) by (rule index_ok_with_gsi)
  show "gw_pin w x n = Some i \<or> (\<exists>ctx m. a = DoMap ctx m \<and> x = ctx_SocketID ctx)"
    if "gw_pin (with_gsi f w) x n = Some i" for x n i
    using that assms(1) assms(3) [where x = x and n = n and i = i] by (auto simp: gw_pin_with_gsi gw_pin_def index_ok_def split: option.splits)
  show "gw_pin (with_gsi f w) x n = None" if "a = DoUnmap x" for x n
    using that assms(1,4) by (auto simp: gw_pin_with_gsi index_ok_def split: option.split)
qed

lemma UnsetService_ok: "gsi_ok st \<Longrightarrow> range_ok rg \<Longrightarrow> gsi_ok (UnsetService rg i st)"
  by (simp add: UnsetService_def unsetServiceLocked_ok)

lemma SetServiceDescriptor_pins: "socketToInstance (snd (SetServiceDescriptor now d (h, r))) = socketToInstance r"
  by (auto simp: SetServiceDescriptor_def Let_def split: option.split)

lemma act_effect_announce:
  assumes "index_ok w" "gw_admissible (Announcement now d sd :: ('p, 'v) gw_event) w"
  shows "act_effect (DoAnnounce now d sd) w
    (handleServiceAnnouncement now d ((w :: ('p, 'v) gworld)\<lparr>w_heap := (w_heap w)(d := sd)\<rparr>))"
proof -
  let ?w = "w\<lparr>w_heap := (w_heap w)(d := sd)\<rparr>"
  have ok: "index_ok ?w" using assms unfolding index_ok_def by (auto simp: gsi_ok_alloc announce_ok_def)
  have pin: "gw_pin ?w = gw_pin w" by (simp add: gw_pin_def fun_eq_iff)
  have "act_effect (DoAnnounce now d sd) ?w (with_gsi (SetServiceDescriptor now d) ?w)"
  proof (rule act_effect_with_gsi [OF ok])
    fix r assume "gsi_ok (w_heap ?w, r)" "gw_gsi (w_gw ?w) = Some r"
    then show "gsi_ok (SetServiceDescriptor now d (w_heap ?w, r))"
      using assms(2) by (intro SetServiceDescriptor_ok) simp_all
  qed (simp_all add: pinned_def SetServiceDescriptor_pins)
  moreover have "act_effect (DoAnnounce now d sd) ?w ?w" using ok by (auto intro: act_effectI)
  ultimately show ?thesis by (simp add: handleServiceAnnouncement_def Let_def act_effect_def pin)
qed

lemma act_effect_prune:
  assumes "index_ok w" "range_ok rg" "gw_gsi (w_gw w) = Some r"
    and "PruneStaleServices rg now threshold (w_heap w, r) = (ids, affected, h', r')"
  shows "act_effect (DoPrune now) w (w\<lparr>w_heap := h', w_gw := (w_gw w)\<lparr>gw_gsi := Some r'\<rparr>\<rparr>)"
proof -
  have ok: "gsi_ok (w_heap w, r)" using assms(1,3) by (simp add: index_ok_def)
  show ?thesis
    using PruneStaleServices_keeps [OF ok assms(2,4)] assms(1,3)
    by (intro act_effectI) (auto simp: index_ok_def gw_pin_def)
qed

lemma act_effect:
  assumes "index_ok w" "range_ok rg" "act_allowed q s a" "gt_w s = w" "act mtch rg res a w = (next_actions, w')"
  shows "act_effect a w w'"
proof (cases a)
  case (DoMap ctx n)
  have "w' = with_gsi (\<lambda>st. snd (MapSocket n (ctx_SocketID ctx) st)) w"
    using assms(5) unfolding gw_MapSocket_snd [symmetric] by (auto simp: DoMap split: prod.splits if_splits)
  moreover have "act_effect a w (with_gsi (\<lambda>st. snd (MapSocket n (ctx_SocketID ctx) st)) w)"
    by (intro act_effect_with_gsi assms(1)) (auto simp: DoMap MapSocket_ok dest: pinned_MapSocket)
  ultimately show ?thesis by simp
next
  case (DoUnset i)
  have "act_effect a w (with_gsi (UnsetService rg i) w)"
    using assms(2) by (intro act_effect_with_gsi assms(1))
      (auto simp: DoUnset pinned_UnsetService UnsetService_ok split: if_splits)
  with assms(5) show ?thesis by (simp add: DoUnset)
next
  case (DoUnmap x)
  have "act_effect a w (with_gsi (UnmapSocket rg x) w)"
    using assms(2) by (intro act_effect_with_gsi assms(1))
      (auto simp: DoUnmap pinned_UnmapSocket UnmapSocket_ok split: if_splits)
  with assms(5) show ?thesis by (simp add: DoUnmap)
next
  case DoCloseIndex
  have "act_effect a w (with_gsi (\<lambda>(h, r). (h, gsi_Close r)) w)"
    by (intro act_effect_with_gsi assms(1)) (simp_all add: DoCloseIndex gsi_Close_ok)
  with assms(5) show ?thesis by (simp add: DoCloseIndex)
next
  case (DoAnnounce now d sd)
  with act_effect_announce [OF assms(1)] assms(3-5) show ?thesis by auto
next
  case (DoPrune now)
  with assms(1,2,5) show ?thesis
    by (auto intro: act_effect_prune act_effectI split: option.splits prod.splits)
qed (use assms(1,5) in \<open>auto intro!: act_effectI simp: index_ok_def gw_pin_def Let_def announce_tick_def
    split: option.splits prod.splits if_splits\<close>)

section \<open>Accounting for closes\<close>

definition closed_sockets :: "'v gw_effect list \<Rightarrow> socket list" where
  "closed_sockets out = List.map_filter (\<lambda>e. case e of SocketClose k _ _ \<Rightarrow> Some k | _ \<Rightarrow> None) out"

definition to_close :: "('p, 'v) action list \<Rightarrow> socket multiset" where
  "to_close g = mset (List.map_filter (\<lambda>a. case a of DoClose k _ _ \<Rightarrow> Some k | _ \<Rightarrow> None) g)"

definition pending :: "('p, 'v) action list multiset \<Rightarrow> socket multiset" where
  "pending T = sum_mset (image_mset to_close T)"

lemma closed_sockets_simps [simp]:
  "closed_sockets [] = []" "closed_sockets (xs @ ys) = closed_sockets xs @ closed_sockets ys"
  "closed_sockets [e] = (case e of SocketClose k _ _ \<Rightarrow> [k] | _ \<Rightarrow> [])"
  by (auto simp: closed_sockets_def List.map_filter_def split: gw_effect.split)

lemma to_close_simps [simp]:
  "to_close [] = {#}" "to_close (xs @ ys) = to_close xs + to_close ys"
  "to_close (a # xs) = (case a of DoClose k _ _ \<Rightarrow> {#k#} | _ \<Rightarrow> {#}) + to_close xs"
  by (auto simp: to_close_def List.map_filter_def split: action.split)

lemma pending_simps [simp]: "pending {#} = {#}" "pending (add_mset g T) = to_close g + pending T"
  by (simp_all add: pending_def)

lemma to_close_takes [simp]: "to_close (map (\<lambda>s. DoTake s status reason notify) ss) = {#}"
  by (induction ss) simp_all

lemma mset_values_delete:
  "gomap_ok m \<Longrightarrow> map_of m k = Some v \<Longrightarrow> mset (map snd m) = add_mset v (mset (map snd (AList.delete k m)))"
proof (induction m)
  case (Cons x m)
  show ?case
  proof (cases "fst x = k")
    case True
    with Cons.prems have "k \<notin> set (gomap_keys m)" by (auto simp: gomap_ok_def)
    then have "AList.delete k (x # m) = m" using True by (force simp: AList.delete_eq filter_id_conv)
    with True Cons.prems show ?thesis by auto
  next
    case False
    with Cons show ?thesis by (auto simp: gomap_ok_def AList.delete_eq)
  qed
qed simp

lemma mset_values_update: "mset (map snd (AList.update k v m)) \<subseteq># add_mset v (mset (map snd m))"
proof (induction m)
  case (Cons x m)
  then show ?case by (cases x) (auto simp: subset_mset.le_iff_add add_mset_commute)
qed simp

lemma to_close_close_all:
  "set ids \<subseteq> set (gomap_keys m) \<Longrightarrow>
    to_close (close_all_actions m ids status reason) = image_mset (\<lambda>s. the (map_of m s)) (mset ids)"
proof (induction ids)
  case (Cons s ids)
  then obtain sock where "map_of m s = Some sock" by (cases "map_of m s") (auto simp: map_of_eq_None_iff)
  with Cons show ?case by (simp add: close_all_actions_def)
qed (simp add: close_all_actions_def)

lemma values_by_keys: "gomap_ok m \<Longrightarrow> image_mset (\<lambda>s. the (map_of m s)) (mset (gomap_keys m)) = mset (map snd m)"
proof -
  assume "gomap_ok m"
  then have "map (\<lambda>s. the (map_of m s)) (gomap_keys m) = map snd m"
    by (auto simp: gomap_ok_def)
  then show ?thesis by (metis mset_map)
qed

lemma act_closes:
  assumes "gomap_ok (gw_sockets (w_gw w))" "range_ok rg" "act mtch rg res a w = (next_actions, w')"
  shows "mset (closed_sockets (w_out w')) + to_close next_actions
    = mset (closed_sockets (w_out w)) + to_close [a] + mset (takes a w)"
proof (cases a)
  case (DoTakeAll status reason)
  have "to_close (close_all_actions (gw_sockets (w_gw w)) (rg 0 (gomap_keys (gw_sockets (w_gw w)))) status reason)
    = mset (map snd (gw_sockets (w_gw w)))"
    using assms(1,2) by (simp add: to_close_close_all range_ok_def values_by_keys del: mset_map)
  with assms(3) DoTakeAll show ?thesis by auto
next
  case (DoMap ctx n)
  have "w_out (snd (gw_MapSocket n (ctx_SocketID ctx) w)) = w_out w" by (simp add: gw_MapSocket_snd)
  with assms(3) show ?thesis by (auto simp: DoMap split: prod.splits if_splits)
qed (use assms(3) in \<open>auto simp: close_actions_def message_effect_def announce_tick_def handleServiceAnnouncement_def Let_def
    split: option.splits prod.splits if_splits\<close>)

lemma act_table:
  assumes "gomap_ok (gw_sockets (w_gw w))" "act mtch rg res a w = (next_actions, w')"
  shows "mset (takes a w) + mset (map snd (gw_sockets (w_gw w')))
    \<subseteq># mset (map snd (gw_sockets (w_gw w))) + mset (enters a)"
proof (cases a)
  case (DoMap ctx n)
  have "gw_sockets (w_gw (snd (gw_MapSocket n (ctx_SocketID ctx) w))) = gw_sockets (w_gw w)"
    by (simp add: gw_MapSocket_snd)
  with assms(2) show ?thesis by (auto simp: DoMap split: prod.splits if_splits)
next
  case (DoRegister ctx)
  with assms(2) show ?thesis by (auto simp: mset_values_update simp flip: mset_map)
next
  case (DoTake s status reason notify)
  with assms show ?thesis
    by (auto simp flip: mset_map split: option.splits dest: mset_values_delete)
qed (use assms(2) in \<open>auto simp: announce_tick_def handleServiceAnnouncement_def Let_def
    split: option.splits prod.splits if_splits\<close>)

section \<open>Invariants of all interleavings\<close>

definition gt_ok :: "bool \<Rightarrow> ('p, 'v) gsys \<Rightarrow> bool" where
  "gt_ok quiet s \<longleftrightarrow> index_ok (gt_w s)
     \<and> mset (closed_sockets (w_out (gt_w s))) + pending (gt_run s) = mset (gt_taken s)
     \<and> mset (gt_taken s) + mset (map snd (gw_sockets (w_gw (gt_w s)))) \<subseteq># mset (gt_entered s)
     \<and> (quiet \<longrightarrow> (\<forall>x n i. gw_pin (gt_w s) x n = Some i
          \<longrightarrow> go_has (gw_sockets (w_gw (gt_w s))) x \<or> to_unmap (gt_run s) x))"

lemma goroutine_simps [simp]: "to_close (goroutine ev) = {#}" "DoUnmap x \<notin> set (goroutine ev)"
  by (cases ev; simp)+

lemma to_unmap_simps [simp]:
  "\<not> to_unmap {#} x" "to_unmap (add_mset g T) x \<longleftrightarrow> DoUnmap x \<in> set g \<or> to_unmap T x"
  by (auto simp: to_unmap_def)

text \<open>A socket that leaves the table leaves it to a goroutine that releases its pins.\<close>

lemma act_keeps_responsible:
  assumes "act mtch rg res a w = (next_actions, w')" "range_ok rg" "go_has (gw_sockets (w_gw w)) x"
  shows "go_has (gw_sockets (w_gw w')) x \<or> DoUnmap x \<in> set next_actions"
proof (cases a)
  case (DoTake s status reason notify)
  with assms show ?thesis by (auto simp: close_actions_def split: option.splits)
next
  case (DoTakeAll status reason)
  obtain sock where sock: "map_of (gw_sockets (w_gw w)) x = Some sock" using assms(3) by (auto simp: go_has_def)
  have "x \<in> set (rg 0 (gomap_keys (gw_sockets (w_gw w))))" using assms(2,3) by (simp add: go_has_keys del: set_map)
  with sock have "DoUnmap x \<in> set (close_all_actions (gw_sockets (w_gw w)) (rg 0 (gomap_keys (gw_sockets (w_gw w)))) status reason)"
    by (force simp: close_all_actions_def)
  with assms(1) DoTakeAll show ?thesis by auto
next
  case (DoMap ctx n)
  have "gw_sockets (w_gw (snd (gw_MapSocket n (ctx_SocketID ctx) w))) = gw_sockets (w_gw w)"
    by (simp add: gw_MapSocket_snd)
  with assms(1,3) show ?thesis by (auto simp: DoMap split: prod.splits if_splits)
qed (use assms(1,3) in \<open>auto simp: announce_tick_def handleServiceAnnouncement_def Let_def
    split: option.splits prod.splits if_splits\<close>)

lemma gt_act_ok:
  assumes ok: "gt_ok quiet s" and run: "gt_run s = add_mset (a # rest) T" and rg: "range_ok rg"
    and allowed: "act_allowed quiet s a" and act: "act mtch rg res a (gt_w s) = (next_actions, w)"
  shows "gt_ok quiet (s\<lparr>gt_w := w, gt_run := add_mset (next_actions @ rest) T,
    gt_taken := gt_taken s @ takes a (gt_w s), gt_entered := gt_entered s @ enters a\<rparr>)"
proof -
  have i: "index_ok (gt_w s)" and g: "gomap_ok (gw_sockets (w_gw (gt_w s)))"
    using ok by (simp_all add: gt_ok_def index_ok_def)
  have eff: "act_effect a (gt_w s) w" by (rule act_effect [OF i rg allowed refl act])
  have cl: "mset (closed_sockets (w_out w)) + to_close next_actions
    = mset (closed_sockets (w_out (gt_w s))) + to_close [a] + mset (takes a (gt_w s))"
    by (rule act_closes [OF g rg act])
  have "mset (closed_sockets (w_out w)) + pending (add_mset (next_actions @ rest) T)
    = mset (closed_sockets (w_out (gt_w s))) + pending (gt_run s) + mset (takes a (gt_w s))"
    using cl by (simp add: run)
  also have "\<dots> = mset (gt_taken s @ takes a (gt_w s))" using ok by (simp add: gt_ok_def)
  finally have closes: "mset (closed_sockets (w_out w)) + pending (add_mset (next_actions @ rest) T)
    = mset (gt_taken s @ takes a (gt_w s))" .
  have "mset (gt_taken s @ takes a (gt_w s)) + mset (map snd (gw_sockets (w_gw w)))
    \<subseteq># mset (gt_taken s) + (mset (map snd (gw_sockets (w_gw (gt_w s)))) + mset (enters a))"
    using act_table [OF g act] by (simp add: add.assoc)
  also have "\<dots> \<subseteq># mset (gt_entered s @ enters a)"
    using ok by (simp add: gt_ok_def flip: add.assoc)
  finally have table: "mset (gt_taken s @ takes a (gt_w s)) + mset (map snd (gw_sockets (w_gw w)))
    \<subseteq># mset (gt_entered s @ enters a)" .
  have pins: "go_has (gw_sockets (w_gw w)) x \<or> to_unmap (add_mset (next_actions @ rest) T) x"
    if q: quiet and p: "gw_pin w x n = Some j" for x n j
  proof -
    have "a \<noteq> DoUnmap x" using eff p by (auto simp: act_effect_def)
    moreover have "go_has (gw_sockets (w_gw (gt_w s))) x \<or> to_unmap (gt_run s) x"
    proof -
      consider "gw_pin (gt_w s) x n = Some j" | ctx m where "a = DoMap ctx m" "x = ctx_SocketID ctx"
        using eff p unfolding act_effect_def by blast
      then show ?thesis using ok q allowed by cases (auto simp: gt_ok_def)
    qed
    ultimately show ?thesis using act_keeps_responsible [OF act rg, of x] by (auto simp: run)
  qed
  show ?thesis using eff closes table pins by (simp add: gt_ok_def act_effect_def)
qed

interpretation gt: invariant_machine gt_new "gt_step mtch quiet" "gt_ok quiet" for mtch quiet
proof
  show "gt_ok quiet s" if "gt_new s" for s :: "('a, 'b) gsys"
    using that by (auto simp: gt_new_def gt_ok_def index_ok_def gw_ok_def gw_pin_def split: option.splits)
  show "gt_ok quiet t" if "gt_ok quiet s" "gt_step mtch quiet s t" for s t :: "('a, 'b) gsys"
    using that(2,1)
  proof cases
    case (gt_act a rest T rg res next_actions w)
    with gt_act_ok [OF that(1)] show ?thesis by simp
  qed (auto simp: gt_ok_def)
qed

section \<open>A goroutine on its own\<close>

text \<open>The goroutine runs to its end with nothing in between.\<close>

definition lone :: "('p, 'v) gworld \<Rightarrow> ('p, 'v) gsys" where
  "lone w = \<lparr>gt_w = w, gt_run = {#}, gt_taken = [], gt_entered = []\<rparr>"

inductive alone :: "('p \<Rightarrow> string \<Rightarrow> bool) \<Rightarrow> ('p, 'v) action list \<Rightarrow> ('p, 'v) gworld \<Rightarrow> ('p, 'v) gworld \<Rightarrow> bool"
  for mtch where
  alone_done: "alone mtch [] w w"
| alone_act: "range_ok rg \<Longrightarrow> act_allowed True (lone w) a
     \<Longrightarrow> act mtch rg res a w = (next_actions, w1) \<Longrightarrow> alone mtch (next_actions @ rest) w1 w2
     \<Longrightarrow> alone mtch (a # rest) w w2"

lemma alone_append: "alone mtch g w w1 \<Longrightarrow> alone mtch h w1 w2 \<Longrightarrow> alone mtch (g @ h) w w2"
proof (induction rule: alone.induct)
  case (alone_act rg a w res next_actions w1' rest w2')
  then show ?case by (auto intro: alone.alone_act [where rg = rg and res = res])
qed simp

lemma alone_one:
  assumes "range_ok rg" "act mtch rg res a w = (next_actions, w1)" "act_allowed True (lone w) a"
    and "alone mtch next_actions w1 w2"
  shows "alone mtch [a] w w2"
  using assms by (auto intro: alone_act [where rg = rg and res = res])

lemma alone_close_actions:
  assumes "range_ok rg"
  shows "alone mtch (close_actions sock s status reason notify) w
    (with_gsi (UnmapSocket rg s) ((if notify then emit (ClosedSocket s status reason) else (\<lambda>w. w))
      (emit (SocketClose sock status reason) w)))"
  unfolding close_actions_def
  by (cases notify; fastforce intro: alone_act [OF assms, where res = None] alone_done)

lemma alone_take:
  assumes "range_ok rg"
  shows "alone mtch [DoTake s status reason notify] w
    (if notify then closeSocket rg s status reason w else handleSocketClosure rg s status reason w)"
proof (cases "map_of (gw_sockets (w_gw w)) s")
  case None
  then show ?thesis
    by (intro alone_one [OF assms, where res = None and next_actions = "[]" and ?w1.0 = w])
      (simp_all add: closeSocket_def handleSocketClosure_def alone_done)
next
  case (Some sock)
  then show ?thesis
    by (intro alone_one [OF assms, where res = None and next_actions = "close_actions sock s status reason notify"
          and ?w1.0 = "set_sockets (AList.delete s (gw_sockets (w_gw w))) w"])
      (use alone_close_actions [OF assms, of mtch sock s status reason notify] in
        \<open>auto simp: closeSocket_def handleSocketClosure_def split: if_splits\<close>)
qed

lemma alone_closeSocket: "range_ok rg \<Longrightarrow> alone mtch [DoTake s status reason True] w (closeSocket rg s status reason w)"
  using alone_take [of rg mtch s status reason True w] by simp

lemma alone_Cons:
  assumes "range_ok rg" "act_allowed True (lone w) a" "act mtch rg res a w = ([], w1)" "alone mtch rest w1 w2"
  shows "alone mtch (a # rest) w w2"
  using assms by (intro alone_act [where rg = rg and res = res and next_actions = "[]"]) simp_all

text \<open>The action that comes after an instance is removed.\<close>

definition retry :: "'v Context \<Rightarrow> string \<Rightarrow> bool \<Rightarrow> ('p, 'v) action" where
  "retry ctx n isNew = (if \<not> isNew then DoTake (ctx_SocketID ctx) StatusGoingAway ''Service unreachable'' True
     else DoMap ctx n)"

lemma alone_send:
  fixes rg rg' rg'' :: "string range_order"
  assumes rg: "range_ok rg" "range_ok rg'" "range_ok rg''" and w2: "w2 = emit (message_effect i ctx w1) w1"
    and sent: "res = None \<Longrightarrow> w' = w2"
    and slow: "\<And>e. res = Some e \<Longrightarrow> errors_Is e ErrSlowConsumer
      \<Longrightarrow> w' = closeSocket rg' (ctx_SocketID ctx) StatusPolicyViolation ''Slow consumer'' w2"
    and failed: "\<And>e. res = Some e \<Longrightarrow> \<not> errors_Is e ErrSlowConsumer
      \<Longrightarrow> alone mtch [retry ctx n isNew] (with_gsi (UnsetService rg'' i) w2) w'"
  shows "alone mtch [DoSend ctx n i isNew] w1 w'"
proof (cases res)
  case None
  with sent w2 show ?thesis
    by (intro alone_one [OF rg(1), where res = res and ?w1.0 = w2 and next_actions = "[]"]) (simp_all add: alone_done)
next
  case (Some e)
  show ?thesis
  proof (cases "errors_Is e ErrSlowConsumer")
    case True
    let ?next = "[DoTake (ctx_SocketID ctx) StatusPolicyViolation ''Slow consumer'' True]"
    show ?thesis
    proof (rule alone_one [OF rg(1)])
      show "act mtch rg res (DoSend ctx n i isNew) w1 = (?next, w2)" using Some True w2 by simp
      show "alone mtch ?next w2 w'" unfolding slow [OF Some True] by (rule alone_closeSocket [OF rg(2)])
    qed simp
  next
    case False
    have "alone mtch [DoUnset i, retry ctx n isNew] w2 w'"
      using failed [OF Some False]
      by (rule alone_Cons [OF rg(3), where res = None and ?w1.0 = "with_gsi (UnsetService rg'' i) w2", rotated 2]) simp_all
    then show ?thesis
    proof (rule alone_one [OF rg(1), rotated 2])
      show "act mtch rg res (DoSend ctx n i isNew) w1 = ([DoUnset i, retry ctx n isNew], w2)"
        using False Some w2 by (simp add: retry_def)
    qed simp
  qed
qed

lemma alone_handle_loop:
  assumes "handle_loop send rg ctx n k w = Some w'" "range_ok rg" "go_has (gw_sockets (w_gw w)) (ctx_SocketID ctx)"
  shows "alone mtch [DoMap ctx n] w w'"
  using assms
proof (induction send rg ctx n k w w' rule: handle_loop.raw_induct [rotated, consumes 1])
  case (1 loop send rg ctx n k w w')
  obtain i isNew err w1 where m: "gw_MapSocket n (ctx_SocketID ctx) w = ((i, isNew, err), w1)"
    by (metis surj_pair)
  have rg: "range_ok (rg_from j rg)" for j using 1(3) by simp
  have map_ok: "act_allowed True (lone w) (DoMap ctx n)" using 1(4) by (simp add: lone_def)
  have "w1 = with_gsi (\<lambda>st. snd (MapSocket n (ctx_SocketID ctx) st)) w"
    using gw_MapSocket_snd [of n "ctx_SocketID ctx" w] m by simp
  then have socks: "gw_sockets (w_gw w1) = gw_sockets (w_gw w)" by simp
  show ?case
  proof (cases "err \<noteq> None \<or> i = ''''")
    case True
    with 1(2) m have "w' = closeSocket (rg_from (3 * k + 2) rg) (ctx_SocketID ctx) StatusGoingAway ''Service unreachable'' w1"
      by auto
    with alone_closeSocket [OF rg]
    have "alone mtch [DoTake (ctx_SocketID ctx) StatusGoingAway ''Service unreachable'' True] w1 w'" by simp
    then show ?thesis
      using True m by (elim alone_one [OF 1(3) _ map_ok, where res = None, rotated]) auto
  next
    case False
    let ?w2 = "emit (message_effect i ctx w1) w1" let ?w3 = "with_gsi (UnsetService (rg_from (3 * k) rg) i) ?w2"
    have "alone mtch [DoSend ctx n i isNew] w1 w'"
    proof (rule alone_send [OF 1(3) rg rg refl, where res = "send k i"])
      fix e assume e: "send k i = Some e" "\<not> errors_Is e ErrSlowConsumer"
      show "alone mtch [retry ctx n isNew] ?w3 w'"
      proof (cases isNew)
        case True
        with 1(2) m False e have "loop send rg ctx n (Suc k) ?w3 = Some w'" by auto
        with 1(1,3,4) True socks show ?thesis by (simp add: retry_def)
      next
        case old: False
        with 1(2) m False e have "w' = closeSocket (rg_from (3 * k + 2) rg) (ctx_SocketID ctx)
            StatusGoingAway ''Service unreachable'' ?w3" by auto
        with old alone_closeSocket [OF rg] show ?thesis by (simp add: retry_def)
      qed
    qed (use 1(2) m False in auto)
    then show ?thesis
      using False m by (elim alone_one [OF 1(3) _ map_ok, where res = None, rotated]) auto
  qed
qed

lemma alone_closes:
  assumes "\<And>k. range_ok (rgs k)"
  shows "alone mtch (map (\<lambda>s. DoTake s status reason True) ids) w
    (fold (\<lambda>(k, s). closeSocket (rgs k) s status reason) (enumerate n ids) w)"
proof (induction ids arbitrary: n w)
  case (Cons s ids)
  have "alone mtch ([DoTake s status reason True] @ map (\<lambda>s. DoTake s status reason True) ids) w
    (fold (\<lambda>(k, s). closeSocket (rgs k) s status reason) (enumerate (Suc n) ids) (closeSocket (rgs n) s status reason w))"
    by (rule alone_append [OF alone_closeSocket [OF assms] Cons.IH])
  then show ?case by simp
qed (simp add: alone_done)

lemma alone_close_all:
  assumes "range_ok rg"
  shows "alone mtch (close_all_actions socks ids status reason) w
    (fold (close_one socks rg status reason) (enumerate n ids) w)"
proof (induction ids arbitrary: n w)
  case (Cons s ids)
  have rg: "range_ok (rg_from n rg)" using assms by simp
  have "alone mtch (case map_of socks s of None \<Rightarrow> [] | Some sock \<Rightarrow> [DoClose sock status reason, DoUnmap s]) w
    (close_one socks rg status reason (n, s) w)"
  proof (cases "map_of socks s")
    case (Some sock)
    have "alone mtch [DoUnmap s] (emit (SocketClose sock status reason) w)
      (with_gsi (UnmapSocket (rg_from n rg) s) (emit (SocketClose sock status reason) w))"
      by (rule alone_Cons [OF rg _ _ alone_done, where res = None]) simp_all
    with Some show ?thesis
      by (auto simp: close_one_def intro: alone_Cons [OF rg, where res = None])
  qed (simp add: close_one_def alone_done)
  from alone_append [OF this Cons.IH [of "close_one socks rg status reason (n, s) w" "Suc n"]]
  show ?case by (simp add: close_all_actions_def)
qed (simp add: close_all_actions_def alone_done)

lemma alone_reply:
  assumes "range_ok rg"
  shows "alone mtch [DoLookup s msg] w (handleGatewayMessage sendFails rg s msg w)"
proof (cases "map_of (gw_sockets (w_gw w)) s")
  case None
  then have "act mtch rg None (DoLookup s msg) w = ([], handleGatewayMessage sendFails rg s msg w)"
    by (simp add: handleGatewayMessage_def)
  then show ?thesis by (rule alone_one [OF assms _ _ alone_done]) simp
next
  case (Some sock)
  let ?w = "emit (SocketSend sock (gw_SendTimeout (w_gw w)) (sm_Type msg) (sm_Data msg)) w"
  have "alone mtch (if sendFails then [DoTake s StatusInternalError ''Failed to send message'' True] else [])
    ?w (handleGatewayMessage sendFails rg s msg w)"
    using Some by (simp add: handleGatewayMessage_def alone_done alone_closeSocket [OF assms])
  then have "alone mtch [DoReply sock s msg] w (handleGatewayMessage sendFails rg s msg w)"
    by (rule alone_one [OF assms, where res = "if sendFails then Some ErrNoTransport else None", rotated 2]) simp_all
  then show ?thesis
    using Some by (elim alone_one [OF assms, where res = None, rotated 2]) simp_all
qed

lemma alone_receive:
  assumes "Handle mtch send rg ctx w = Some w'" "range_ok rg"
  shows "alone mtch [DoResolve ctx] w w'"
proof (cases "\<exists>r n. gw_gsi (w_gw w) = Some r \<and> ResolveService mtch rg (ctx_Path ctx) (w_heap w, r) = (n, True)")
  case True
  then obtain r n where r: "gw_gsi (w_gw w) = Some r" "ResolveService mtch rg (ctx_Path ctx) (w_heap w, r) = (n, True)"
    by blast
  have "alone mtch [DoMap ctx n] (register_socket ctx w) w'"
    using assms r by (intro alone_handle_loop [where rg = "rg_from 1 rg" and send = send and k = 0]) (auto simp: Handle_def)
  then have "alone mtch [DoRegister ctx, DoMap ctx n] w w'"
    by (rule alone_Cons [OF assms(2), where res = None, rotated 2]) simp_all
  with r show ?thesis by (elim alone_one [OF assms(2), where res = None, rotated 2]) simp_all
next
  case False
  with assms(1) have "act mtch rg None (DoResolve ctx) w = ([], w')"
    by (auto simp: Handle_def split: option.splits prod.splits)
  then show ?thesis by (rule alone_one [OF assms(2) _ _ alone_done]) simp
qed

lemma alone_prune:
  assumes "range_ok rg" "\<And>k. range_ok (rgs k)"
  shows "alone mtch [DoPrune now] w (prune_tick now rg rgs w)"
proof (cases "gw_gsi (w_gw w)")
  case None
  then have "act mtch rg None (DoPrune now) w = ([], prune_tick now rg rgs w)" by (simp add: prune_tick_def)
  then show ?thesis by (rule alone_one [OF assms(1) _ _ alone_done]) simp
next
  case (Some r)
  obtain ids affected h' r' where p:
    "PruneStaleServices rg now (5 * gw_AnnounceInterval (w_gw w)) (w_heap w, r) = (ids, affected, h', r')"
    by (metis prod_cases4)
  from alone_closes [where rgs = rgs and ids = affected and n = 0, OF assms(2)] show ?thesis
    using Some p by (intro alone_one [OF assms(1), where res = None]) (simp_all add: prune_tick_def)
qed

lemma alone_event:
  assumes "gw_step mtch rgs ev w = Some w'" "\<And>k. range_ok (rgs k)" "gw_admissible ev w" "ev \<noteq> StartRun"
  shows "alone mtch (goroutine ev) w w'"
proof (cases ev)
  case (Announcement now d sd)
  with assms(1,3) show ?thesis
    by (auto intro: alone_one [OF assms(2), where res = None] alone_done simp: lone_def)
next
  case StopRun
  let ?w = "with_gsi (\<lambda>(h, r). (h, gsi_Close r)) w"
  have "alone mtch [DoTakeAll StatusGoingAway ''Gateway is stopping''] ?w w'"
    using assms(1) alone_close_all [OF assms(2)] StopRun
    by (intro alone_one [OF assms(2) [of 0], where res = None])
      (auto simp add: closeAllSockets_def Let_def simp del: enumerate_eq_zip)
  then show ?thesis
    using StopRun by (auto intro: alone_Cons [OF assms(2), where res = None])
next
  case (AnnounceTick now)
  with assms(1) show ?thesis by (auto intro: alone_one [OF assms(2), where res = None] alone_done)
next
  case (ClosureIn s status reason)
  with assms(1) alone_take [OF assms(2), of mtch s status reason False w 0] show ?thesis by auto
next
  case (PruneTick now)
  with assms(1) alone_prune [where rgs = "\<lambda>k. rgs (Suc k)", OF assms(2,2)] show ?thesis by auto
qed (use assms in \<open>auto simp: HandleClose_def intro: alone_reply alone_receive alone_closeSocket\<close>)

lemma act_allowed_lone: "act_allowed True (lone (gt_w s)) a \<Longrightarrow> act_allowed quiet s a"
  by (cases a) (simp_all add: lone_def)

lemma gt_alone:
  assumes "alone mtch g w w'" "gt_w s = w" "gt_run s = add_mset g T"
  shows "\<exists>t. (gt_step mtch quiet)\<^sup>*\<^sup>* s t \<and> gt_w t = w' \<and> gt_run t = T"
  using assms
proof (induction arbitrary: s rule: alone.induct)
  case (alone_done w)
  then show ?case by (intro exI [of _ "s\<lparr>gt_run := T\<rparr>"]) (auto intro: gt_return)
next
  case (alone_act rg w a res next_actions w1 rest w2)
  let ?s = "s\<lparr>gt_w := w1, gt_run := add_mset (next_actions @ rest) T,
    gt_taken := gt_taken s @ takes a (gt_w s), gt_entered := gt_entered s @ enters a\<rparr>"
  have "gt_step mtch quiet s ?s"
    using alone_act by (intro gt_act [where rg = rg and res = res]) (auto intro: act_allowed_lone)
  moreover obtain t where "(gt_step mtch quiet)\<^sup>*\<^sup>* ?s t \<and> gt_w t = w2 \<and> gt_run t = T"
    using alone_act.IH [of ?s] by auto
  ultimately show ?case by (blast intro: converse_rtranclp_into_rtranclp)
qed

lemma gt_event:
  assumes "gw_step mtch rgs ev (gt_w s) = Some w'" "\<And>k. range_ok (rgs k)" "gw_admissible ev (gt_w s)" "ev \<noteq> StartRun"
  shows "\<exists>t. (gt_step mtch quiet)\<^sup>*\<^sup>* s t \<and> gt_w t = w' \<and> gt_run t = gt_run s"
proof -
  have "gt_step mtch quiet s (s\<lparr>gt_run := add_mset (goroutine ev) (gt_run s)\<rparr>)" by (rule gt_spawn)
  moreover obtain t where "(gt_step mtch quiet)\<^sup>*\<^sup>* (s\<lparr>gt_run := add_mset (goroutine ev) (gt_run s)\<rparr>) t
      \<and> gt_w t = w' \<and> gt_run t = gt_run s"
    using gt_alone [OF alone_event [OF assms], of "s\<lparr>gt_run := add_mset (goroutine ev) (gt_run s)\<rparr>"] by auto
  ultimately show ?thesis by (blast intro: converse_rtranclp_into_rtranclp)
qed

section \<open>Properties\<close>

text \<open>A gateway at the start of a run, and the same gateway after a message and a closure.\<close>

definition sample_sys :: "(string, unit) gsys" where
  "sample_sys = lone sample_gw"

lemma sample_sys_new: "gt_new sample_sys"
  using sample_gw_ok by (simp add: gt_new_def sample_sys_def lone_def sample_gw_def NewGateway_def)

lemma sample_sys_run:
  obtains t where "(gt_step (=) quiet)\<^sup>*\<^sup>* sample_sys t" "gt_run t = {#}" "closed_sockets (w_out (gt_w t)) = [1]"
proof -
  have "gw_step (=) (\<lambda>_. rg_id) (Receive fails_on_A sample_ctx) (gt_w sample_sys) = Some sample_open"
    by (simp add: sample_sys_def lone_def sample_open_eq)
  from gt_event [OF this] obtain s where s: "(gt_step (=) quiet)\<^sup>*\<^sup>* sample_sys s" "gt_w s = sample_open" "gt_run s = {#}"
    by (auto simp: sample_sys_def lone_def)
  let ?w = "handleSocketClosure rg_id ''s1'' StatusGoingAway ''bye'' sample_open"
  have "gw_step (=) (\<lambda>_. rg_id) (ClosureIn ''s1'' StatusGoingAway ''bye'') (gt_w s) = Some ?w" by (simp add: s)
  from gt_event [OF this] obtain t where t: "(gt_step (=) quiet)\<^sup>*\<^sup>* s t" "gt_w t = ?w" "gt_run t = {#}"
    by (auto simp: s)
  have "closed_sockets (w_out ?w) = [1]" by code_simp
  with t that [OF rtranclp_trans [OF s(1) t(1)]] show thesis by simp
qed



text \<open>
  C14. The race between a closure and a message is the only way to leak a pin: in an interleaving in
  which every message is mapped while its socket is in the table, or while the goroutine that took it
  out has yet to release its pins, every pin belongs to such a socket. So once all goroutines have
  ended, the gateway is as consistent as if each handler had run on its own.
\<close>

theorem only_the_race_leaks:
  assumes "gt_new s0" and "(gt_step mtch True)\<^sup>*\<^sup>* s0 s"
  shows "(\<forall>x n i. gw_pin (gt_w s) x n = Some i
      \<longrightarrow> go_has (gw_sockets (w_gw (gt_w s))) x \<or> to_unmap (gt_run s) x)
    \<and> (gt_run s = {#} \<longrightarrow> gw_ok (gt_w s))"
proof -
  have "gt_ok True s" using assms by (rule gt.reachable_inv)
  then have "index_ok (gt_w s)" and pins: "\<And>x n i. gw_pin (gt_w s) x n = Some i
      \<Longrightarrow> go_has (gw_sockets (w_gw (gt_w s))) x \<or> to_unmap (gt_run s) x"
    unfolding gt_ok_def by blast+
  moreover from this have "gw_ok (gt_w s)" if "gt_run s = {#}"
    using pins that by (fastforce simp: index_ok_def gw_ok_def gw_pin_def)
  ultimately show ?thesis by blast
qed

theorem only_the_race_leaks_witness:
  "\<exists>t. (gt_step (=) True)\<^sup>*\<^sup>* sample_sys t \<and> closed_sockets (w_out (gt_w t)) = [1] \<and> gw_ok (gt_w t)"
proof -
  obtain t where t: "(gt_step (=) True)\<^sup>*\<^sup>* sample_sys t" "gt_run t = {#}" "closed_sockets (w_out (gt_w t)) = [1]"
    by (rule sample_sys_run)
  with only_the_race_leaks [OF sample_sys_new t(1)] show ?thesis by auto
qed



end
