(* ===== verification/Loops.thy ===== *)
theory Loops
  imports ServiceProps GatewayProps LifecycleProps LocalTransport NatsPubSub
begin

text \<open>
  The loops of gateways and services around the bodies of their ticks, the package variables that
  set their default intervals, the methods that only pass on to the lifecycle, and a bound on the
  memory that the record of closed sockets takes.
\<close>

section \<open>Package variables and constants\<close>

text \<open>Durations are nanoseconds; \<open>randN n\<close> is the draw of \<open>rand.IntN(n)\<close>.\<close>

definition time_Second :: int where
  "time_Second = 1000000000"

definition GatewayAnnounceInterval :: "(int \<Rightarrow> int) \<Rightarrow> int" where
  "GatewayAnnounceInterval randN = (8 + randN 2) * time_Second"

definition GatewaySendTimeout :: int where
  "GatewaySendTimeout = 30 * time_Second"

definition ServicePruneInterval :: int where
  "ServicePruneInterval = 10 * time_Second"

definition ClosedSocketTTL :: int where
  "ClosedSocketTTL = 30 * time_Second"

definition HeartbeatInterval :: int where
  "HeartbeatInterval = 5 * time_Second"

definition ConnectionMailboxSize :: int where
  "ConnectionMailboxSize = 64"

section \<open>The loops\<close>

text \<open>
  What wakes a loop: a tick at a time, or the end of its context. \<open>Meanwhile f\<close> is what the other
  goroutines do while it waits. The result tells whether the loop has returned.
\<close>

datatype 'w wake = Ticked int | Meanwhile "'w \<Rightarrow> 'w" | CtxDone

fun ticker_loop :: "(nat \<Rightarrow> int \<Rightarrow> 'w \<Rightarrow> 'w) \<Rightarrow> nat \<Rightarrow> 'w wake list \<Rightarrow> 'w \<Rightarrow> bool \<times> 'w" where
  "ticker_loop body k [] w = (False, w)"
| "ticker_loop body k (CtxDone # wakes) w = (True, w)"
| "ticker_loop body k (Ticked now # wakes) w = ticker_loop body (Suc k) wakes (body k now w)"
| "ticker_loop body k (Meanwhile f # wakes) w = ticker_loop body k wakes (f w)"

definition gw_announceLoop :: "('p, 'v) gworld wake list \<Rightarrow> ('p, 'v) gworld \<Rightarrow> bool \<times> ('p, 'v) gworld" where
  "gw_announceLoop = ticker_loop (\<lambda>k now. announce_tick now) 0"

definition gw_pruneLoop :: "(nat \<Rightarrow> nat \<Rightarrow> string range_order) \<Rightarrow> ('p, 'v) gworld wake list \<Rightarrow> ('p, 'v) gworld
    \<Rightarrow> bool \<times> ('p, 'v) gworld" where
  "gw_pruneLoop rgs = ticker_loop (\<lambda>k now. prune_tick now (rgs k 0) (\<lambda>j. rgs k (Suc j))) 0"

definition svc_pruneLoop :: "(nat \<Rightarrow> string range_order) \<Rightarrow> ('p, 'v) sworld wake list \<Rightarrow> ('p, 'v) sworld
    \<Rightarrow> bool \<times> ('p, 'v) sworld" where
  "svc_pruneLoop rgs = ticker_loop (\<lambda>k now. pruneStaleResources (rgs k) now) 0"

text \<open>\<open>hb k\<close> are the answers of the transport in the k-th round.\<close>

definition svc_heartbeatLoop :: "(nat \<Rightarrow> string \<Rightarrow> string list \<Rightarrow> string list option) \<Rightarrow> (nat \<Rightarrow> string range_order)
    \<Rightarrow> ('p, 'v) sworld wake list \<Rightarrow> ('p, 'v) sworld \<Rightarrow> bool \<times> ('p, 'v) sworld" where
  "svc_heartbeatLoop hb rgs = ticker_loop (\<lambda>k now. heartbeatConnections (hb k) (rgs k) (\<lambda>_. now)) 0"

section \<open>Ready, Close and subscriptions of the local transport\<close>

definition gw_Ready :: "lworld \<Rightarrow> chan \<times> lworld" where
  "gw_Ready w = readyChan w"

definition svc_Ready :: "lworld \<Rightarrow> chan \<times> lworld" where
  "svc_Ready w = readyChan w"

text \<open>
  \<open>Close\<close> calls \<open>lifecycle.close\<close> and returns nil: what it takes under the mutex, and its result once
  the channel it waits for is closed (\<open>None\<close>: it still waits).
\<close>

definition gw_Close :: "lworld \<Rightarrow> ctx option \<times> (lworld \<Rightarrow> go_error option option)" where
  "gw_Close w = (case close_lock w of (cancel, done) \<Rightarrow>
     (cancel, \<lambda>w'. if close_returns done w' then Some None else None))"

definition svc_Close :: "lworld \<Rightarrow> ctx option \<times> (lworld \<Rightarrow> go_error option option)" where
  "svc_Close w = (case close_lock w of (cancel, done) \<Rightarrow>
     (cancel, \<lambda>w'. if close_returns done w' then Some None else None))"

text \<open>A subscription of the local transport: it waits for its context, then unregisters; never an error.\<close>

definition untilDone :: "('t \<Rightarrow> 't) \<Rightarrow> bool \<Rightarrow> 't \<Rightarrow> (go_error option \<times> 't) option" where
  "untilDone unregister ctxDone t = (if ctxDone then Some (None, unregister t) else None)"

section \<open>Facts about the loops\<close>

text \<open>An invariant that the body and the other goroutines keep holds whenever the loop is observed.\<close>

lemma ticker_loop_inv:
  assumes "\<And>k now w. P w \<Longrightarrow> P (body k now w)" "\<And>f w. Meanwhile f \<in> set wakes \<Longrightarrow> P w \<Longrightarrow> P (f w)" "P w"
  shows "P (snd (ticker_loop body k wakes w))"
  using assms(2,3)
proof (induction wakes arbitrary: k w)
  case (Cons x wakes)
  then show ?case by (cases x) (auto simp: assms(1))
qed simp

lemma ticker_loop_returns: "fst (ticker_loop body k wakes w) \<longleftrightarrow> CtxDone \<in> set wakes"
proof (induction wakes arbitrary: k w)
  case (Cons x wakes)
  then show ?case by (cases x) auto
qed simp

lemma svc_loops_ok:
  assumes "svc_ok w" "\<And>f w. Meanwhile f \<in> set wakes \<Longrightarrow> svc_ok w \<Longrightarrow> svc_ok (f w)" "\<And>k. range_ok (rgs k)"
  shows "svc_ok (snd (svc_pruneLoop rgs wakes w))" "svc_ok (snd (svc_heartbeatLoop hb rgs wakes w))"
proof -
  show "svc_ok (snd (svc_pruneLoop rgs wakes w))"
    unfolding svc_pruneLoop_def by (rule ticker_loop_inv) (use assms in \<open>simp_all add: pruneStaleResources_ok\<close>)
  have "svc_ok (heartbeatConnections hb' rg t w)" if "svc_ok w" "range_ok rg" for hb' rg t and w :: "('a, 'b) sworld"
    using svc_step_ok [OF that, of "Heartbeat hb' t"] by simp
  then show "svc_ok (snd (svc_heartbeatLoop hb rgs wakes w))"
    unfolding svc_heartbeatLoop_def by (rule_tac ticker_loop_inv) (use assms in auto)
qed

lemma gw_loops_ok:
  assumes "gw_ok w" "\<And>f w. Meanwhile f \<in> set wakes \<Longrightarrow> gw_ok w \<Longrightarrow> gw_ok (f w)" "\<And>k j. range_ok (rgs k j)"
  shows "gw_ok (snd (gw_announceLoop wakes w))" "gw_ok (snd (gw_pruneLoop rgs wakes w))"
  unfolding gw_announceLoop_def gw_pruneLoop_def
  by (rule ticker_loop_inv; use assms in \<open>simp add: announce_tick_def prune_tick_ok split: option.split\<close>)+

section \<open>The record of closed sockets is bounded\<close>

text \<open>
  A service with a clock. \<open>cr_due\<close> is the latest time of the next tick of \<open>pruneLoop\<close>, which comes
  at most \<open>P\<close> after the one before; every other event happens at the current time.
\<close>

record ('p, 'v) crsys =
  cr_now :: int
  cr_due :: int
  cr_svc :: "('p, 'v) sworld"

fun at_time :: "int \<Rightarrow> ('p, 'v) svc_event \<Rightarrow> bool" where
  "at_time now (SocketClosed t s status reason) \<longleftrightarrow> t = now"
| "at_time now (Heartbeat hb ts) \<longleftrightarrow> (\<forall>s. ts s = now)"
| "at_time now (PruneResources t) \<longleftrightarrow> t = now"
| "at_time now _ \<longleftrightarrow> True"

inductive cr_step :: "int \<Rightarrow> ('p, 'v) crsys \<Rightarrow> ('p, 'v) crsys \<Rightarrow> bool" for P where
  cr_pass: "0 \<le> d \<Longrightarrow> cr_now s + d \<le> cr_due s \<Longrightarrow> cr_step P s (s\<lparr>cr_now := cr_now s + d\<rparr>)"
| cr_prune: "range_ok rg \<Longrightarrow> cr_step P s (s\<lparr>cr_due := cr_now s + P,
     cr_svc := pruneStaleResources rg (cr_now s) (cr_svc s)\<rparr>)"
| cr_event: "range_ok rg \<Longrightarrow> at_time (cr_now s) ev \<Longrightarrow> svc_step rg ev (cr_svc s) = Some w
     \<Longrightarrow> cr_step P s (s\<lparr>cr_svc := w\<rparr>)"

text \<open>Every record of a closed socket has a time between two bounds.\<close>

definition records_in :: "int \<Rightarrow> int \<Rightarrow> ('p, 'v) sworld \<Rightarrow> bool" where
  "records_in lo hi w \<longleftrightarrow> (\<forall>s t. map_of (s_closedSockets (sw_svc w)) s = Some t \<longrightarrow> lo \<le> t \<and> t \<le> hi)"

lemma records_in_close:
  "svc_ok w \<Longrightarrow> records_in lo hi w \<Longrightarrow> lo \<le> now \<Longrightarrow> now \<le> hi \<Longrightarrow> records_in lo hi (closeConnection now s status reason w)"
  by (simp add: records_in_def closeConnection_effect)

lemma records_in_heartbeat:
  assumes "records_in lo hi w" "svc_ok w" "\<And>x. lo \<le> now x \<and> now x \<le> hi"
  shows "records_in lo hi (heartbeatConnections hb rg now w)"
proof -
  have emit: "records_in lo hi (svc_emit e w) = records_in lo hi w" for e and w :: "('a, 'b) sworld"
    by (simp add: records_in_def)
  have keep: "svc_ok (fold f xs v) \<and> records_in lo hi (fold f xs v)"
    if "\<And>x v. svc_ok v \<and> records_in lo hi v \<Longrightarrow> svc_ok (f x v) \<and> records_in lo hi (f x v)" "svc_ok v \<and> records_in lo hi v"
    for f :: "string \<Rightarrow> ('a, 'b) sworld \<Rightarrow> ('a, 'b) sworld" and xs v
    using that by (induction xs arbitrary: v) auto
  have dead: "svc_ok (heartbeat_dead now x v) \<and> records_in lo hi (heartbeat_dead now x v)"
    if "svc_ok v \<and> records_in lo hi v" for x and v :: "('a, 'b) sworld"
    using that assms(3) heartbeat_dead_ok [of v now x]
    by (simp add: heartbeat_dead_def emit records_in_close)
  have gate: "svc_ok (heartbeat_gateway hb now groups g v) \<and> records_in lo hi (heartbeat_gateway hb now groups g v)"
    if "svc_ok v \<and> records_in lo hi v" for groups g and v :: "('a, 'b) sworld"
    unfolding heartbeat_gateway_def Let_def by (rule keep [OF dead]) (use that in \<open>simp_all add: svc_ok_emit emit\<close>)
  show ?thesis
    unfolding heartbeatConnections_def Let_def
    by (rule keep [THEN conjunct2]) (use gate assms(1,2) in blast)+
qed

lemma records_in_prune:
  assumes "svc_ok w" "range_ok rg" "records_in lo hi w"
  shows "records_in (max lo (now - s_ClosedSocketTTL (sw_svc w))) hi (pruneStaleResources rg now w)"
  using assms(3) pruneStaleResources_closed [OF assms(1,2)]
  by (auto simp: records_in_def split: option.splits if_splits)

lemma records_in_step:
  assumes "svc_step rg ev w = Some w'" "range_ok rg" "at_time now ev" "svc_ok w" "records_in lo now w" "lo \<le> now"
  shows "records_in lo now w' \<and> svc_ok w' \<and> svc_config (sw_svc w') = svc_config (sw_svc w)"
proof -
  have "svc_ok w'" using assms(4,2,1) by (rule svc_step_ok)
  moreover have "records_in lo now w' \<and> svc_config (sw_svc w') = svc_config (sw_svc w)"
  proof (cases ev)
    case (ServiceMessage readers pick gatewayID x info msg)
    with assms(1) have "handleServiceMessage readers pick gatewayID x info msg w = Some w'" by simp
    from closedSockets_message [OF this] assms(5) show ?thesis by (simp add: records_in_def)
  next
    case (RouterWrite a send msg)
    with assms(1,5) show ?thesis
      by (auto simp: records_in_def svc_Write_eq Let_def closedSockets_HandleClose svc_HandleClose_config split: if_splits)
  next
    case (PruneResources t)
    with assms(1) have w': "w' = pruneStaleResources rg t w" by simp
    with records_in_prune [OF assms(4,2,5), of t] show ?thesis
      by (auto simp: records_in_def) (simp add: pruneStaleResources_def Let_def)
  next
    case (Heartbeat hb ts)
    with assms show ?thesis
      by (auto simp: heartbeat_closes_dead_config intro!: records_in_heartbeat)
  next
    case StopListen
    with assms(1,5) closeAllConnections_effect [OF assms(4,2)] show ?thesis
      by (auto simp: records_in_def closeAllConnections_config)
  qed (use assms in \<open>auto simp: closeConnection_effect records_in_def
      handleGatewayAnnounce_def doAnnounce_def Let_def split: if_splits\<close>)
  ultimately show ?thesis by blast
qed

definition cr_ok :: "int \<Rightarrow> ('p, 'v) crsys \<Rightarrow> bool" where
  "cr_ok P s \<longleftrightarrow> svc_ok (cr_svc s) \<and> 0 \<le> s_ClosedSocketTTL (sw_svc (cr_svc s))
     \<and> cr_due s - P \<le> cr_now s \<and> cr_now s \<le> cr_due s
     \<and> records_in (cr_due s - P - s_ClosedSocketTTL (sw_svc (cr_svc s))) (cr_now s) (cr_svc s)"

definition cr_new :: "int \<Rightarrow> ('p, 'v) crsys \<Rightarrow> bool" where
  "cr_new P s \<longleftrightarrow> svc_new (cr_svc s) \<and> 0 \<le> s_ClosedSocketTTL (sw_svc (cr_svc s)) \<and> 0 \<le> P \<and> cr_due s = cr_now s + P"

lemma records_in_mono: "records_in lo hi w \<Longrightarrow> lo' \<le> lo \<Longrightarrow> hi \<le> hi' \<Longrightarrow> records_in lo' hi' w"
  by (fastforce simp: records_in_def)

lemma cr_step_ok:
  assumes "0 \<le> P" "cr_ok P s" "cr_step P s t"
  shows "cr_ok P t"
  using assms(3)
proof cases
  case (cr_pass d)
  with assms(2) show ?thesis by (auto simp: cr_ok_def intro: records_in_mono)
next
  case (cr_prune rg)
  have "svc_config (sw_svc (pruneStaleResources rg (cr_now s) (cr_svc s))) = svc_config (sw_svc (cr_svc s))"
    by (simp add: pruneStaleResources_def Let_def)
  then have ttl: "s_ClosedSocketTTL (sw_svc (pruneStaleResources rg (cr_now s) (cr_svc s))) = s_ClosedSocketTTL (sw_svc (cr_svc s))"
    by (rule svc_config_sel)
  have ok: "svc_ok (cr_svc s)" and r: "records_in (cr_due s - P - s_ClosedSocketTTL (sw_svc (cr_svc s))) (cr_now s) (cr_svc s)"
    using assms(2) by (simp_all add: cr_ok_def)
  show ?thesis
    using records_in_mono [OF records_in_prune [OF ok cr_prune(2) r, of "cr_now s"] max.cobounded2 order.refl]
      pruneStaleResources_ok [OF ok cr_prune(2)] assms(1,2)
    by (simp add: cr_prune(1) cr_ok_def ttl)
next
  case (cr_event rg ev w)
  let ?lo = "cr_due s - P - s_ClosedSocketTTL (sw_svc (cr_svc s))"
  have "records_in ?lo (cr_now s) w \<and> svc_ok w \<and> svc_config (sw_svc w) = svc_config (sw_svc (cr_svc s))"
    using assms(2) by (intro records_in_step [OF cr_event(4,2,3)]) (simp_all add: cr_ok_def)
  moreover from this have "s_ClosedSocketTTL (sw_svc w) = s_ClosedSocketTTL (sw_svc (cr_svc s))"
    by (blast dest: svc_config_sel)
  ultimately show ?thesis using assms(2) by (simp add: cr_event(1) cr_ok_def)
qed

interpretation cr: invariant_machine "\<lambda>s. 0 \<le> P \<and> cr_new P s" "cr_step P" "\<lambda>s. 0 \<le> P \<and> cr_ok P s" for P
proof
  show "0 \<le> P \<and> cr_ok P s" if "0 \<le> P \<and> cr_new P s" for s :: "('a, 'b) crsys"
    using that svc.init_inv [of "cr_svc s"] by (auto simp: cr_ok_def cr_new_def svc_new_def records_in_def)
qed (use cr_step_ok in blast)

text \<open>
  C22. The record of closed sockets does not grow without bound: if the prune loop ticks at least once
  in every \<open>P\<close>, then at every moment of every run no record is older than the TTL plus \<open>P\<close>, so the
  table holds at most the sockets that closed in that time (with the default intervals, the last 40
  seconds), and no record is from the future.
\<close>

theorem closed_records_bounded:
  assumes "0 \<le> P" and "cr_new P s0" and "(cr_step P)\<^sup>*\<^sup>* s0 s" and "map_of (s_closedSockets (sw_svc (cr_svc s))) x = Some t"
  shows "t \<le> cr_now s \<and> cr_now s - t \<le> s_ClosedSocketTTL (sw_svc (cr_svc s)) + P"
  using cr.reachable_inv [OF _ assms(3)] assms(1,2,4) by (force simp: cr_ok_def records_in_def)

definition sample_cr :: "(string, unit) crsys" where
  "sample_cr = \<lparr>cr_now = 5, cr_due = 15, cr_svc = \<lparr>sw_heap = (\<lambda>_. NewConnection '''' '''' sample_info 1), sw_next = 0,
     sw_svc = NewService ''chat'' ''A'' None ServicePruneInterval ClosedSocketTTL HeartbeatInterval ConnectionMailboxSize,
     sw_out = []\<rparr>\<rparr>"

theorem closed_records_bounded_witness:
  "\<exists>s t. (cr_step 10)\<^sup>*\<^sup>* sample_cr s \<and> map_of (s_closedSockets (sw_svc (cr_svc s))) ''s1'' = Some t
    \<and> cr_now s - t \<le> ClosedSocketTTL + 10"
proof -
  let ?s = "sample_cr\<lparr>cr_svc := closeConnection 5 ''s1'' StatusGoingAway ''bye'' (cr_svc sample_cr)\<rparr>"
  have new: "cr_new 10 sample_cr"
    by (simp add: cr_new_def sample_cr_def svc_new_def NewService_def ClosedSocketTTL_def time_Second_def)
  have step: "cr_step 10 sample_cr ?s"
    by (rule cr_event [where rg = rg_id and ev = "SocketClosed 5 ''s1'' StatusGoingAway ''bye''"])
      (simp_all add: sample_cr_def)
  have rec: "map_of (s_closedSockets (sw_svc (cr_svc ?s))) ''s1'' = Some 5"
    by (simp add: sample_cr_def closeConnection_def NewService_def set_connections_def set_closedSockets_def)
  have ttl: "s_ClosedSocketTTL (sw_svc (cr_svc ?s)) = ClosedSocketTTL"
    by (simp add: sample_cr_def closeConnection_def NewService_def set_connections_def set_closedSockets_def)
  from closed_records_bounded [OF _ new r_into_rtranclp [of "cr_step 10", OF step] rec] ttl rec step
  show ?thesis by auto
qed

end
