(* ===== verification/LostAck.thy ===== *)
theory LostAck
  imports NatsPubSub GatewayProps
begin

text \<open>
  The gateway's fail-over loop over the NATS transport: \<open>MessageService\<close> returns an error when the
  acknowledgement of a message is lost, although the instance has the message in its queue.
\<close>

section \<open>A request to the pump of an instance\<close>

text \<open>The first acknowledgement that the pump publishes to the reply subject, or the time-out.\<close>

definition pump_reply :: "MessageAck codec \<Rightarrow> string \<Rightarrow> pump_effect list \<Rightarrow> go_error + byte list" where
  "pump_reply ca reply fx =
     (case List.map_filter (\<lambda>e. case e of Ack r ack \<Rightarrow> if r = reply then Some ack else None | _ \<Rightarrow> None) fx of
        [] \<Rightarrow> Inl (ErrOther ''nats: timeout'')
      | ack # _ \<Rightarrow> marshal ca ack)"

definition instance_serve where
  "instance_serve ce reply d bytes = serve_message (decode_service ce reply) reply bytes d"

text \<open>The outcome of the NATS request when the acknowledgement is lost, and when it is not.\<close>

definition nats_request where
  "nats_request lost ca ce reply d bytes =
     (if lost then Inl (ErrOther ''nats: timeout'')
      else pump_reply ca reply (fst (instance_serve ce reply d bytes)))"

text \<open>The error of \<open>MessageService\<close> for an instance whose dispatcher is \<open>d\<close>.\<close>

definition nats_send where
  "nats_send lost cp ce ca maxPayload reply d serviceID gatewayID socketID connInfo msg =
     (case nats_MessageService cp ce ca maxPayload (\<lambda>subject. nats_request lost ca ce reply d) (\<lambda>_ _. None)
        serviceID gatewayID socketID connInfo msg of
        None \<Rightarrow> Some (ErrOther ''panic'') | Some (requests, chunks, err) \<Rightarrow> err)"

definition ctx_message :: "'v Context \<Rightarrow> 'v SocketMessage" where
  "ctx_message ctx = \<lparr>sm_Type = ctx_MessageType ctx, sm_RawData = ctx_RawData ctx, sm_Data = ctx_Data ctx,
     sm_Meta = ctx_Meta ctx\<rparr>"

definition ctx_info :: "'v Context \<Rightarrow> ConnectionInfo" where
  "ctx_info ctx = \<lparr>ci_Headers = ctx_Headers ctx, ci_RemoteAddr = ctx_RemoteAddr ctx\<rparr>"

definition ctx_envelope :: "string \<Rightarrow> 'v Context \<Rightarrow> byte list \<Rightarrow> ServiceMessageEnvelope" where
  "ctx_envelope gatewayID ctx payload =
     service_envelope gatewayID (ctx_SocketID ctx) (ctx_info ctx) (ctx_message ctx) payload False"

text \<open>The message fits in one NATS message, whose bytes are \<open>bytes\<close>.\<close>

definition inline_message where
  "inline_message cp ce maxPayload gatewayID ctx payload bytes \<longleftrightarrow>
     marshal cp (payload_of (ctx_message ctx)) = Inr payload
     \<and> marshal ce (ctx_envelope gatewayID ctx payload) = Inr bytes \<and> int (length bytes) \<le> maxPayload"

lemma instance_serve_inline:
  assumes "codec_ok ce" "marshal ce (ctx_envelope gatewayID ctx payload) = Inr bytes" "reply \<noteq> ''''"
    and "length (go_get [] (queues d) (ctx_SocketID ctx)) < queueSize d"
  obtains spawned d1 where "instance_serve ce reply d bytes = ([Ack reply \<lparr>ack_ChunkSubject = '''', ack_Error = ''''\<rparr>], spawned, d1)"
    "go_get [] (queues d1) (ctx_SocketID ctx) = go_get [] (queues d) (ctx_SocketID ctx) @ [(reply, ctx_envelope gatewayID ctx payload)]"
proof -
  have "decode_service ce reply bytes = Inr (ctx_SocketID ctx, False, reply, ctx_envelope gatewayID ctx payload)"
    using codec_okD [OF assms(1,2)] by (simp add: decode_service_def ctx_envelope_def service_envelope_def)
  with assms(3,4) that show thesis
    by (cases "go_has (queues d) (ctx_SocketID ctx)")
      (simp_all add: instance_serve_def serve_message_def dispatch_def Let_def respondAck_def)
qed

lemma nats_send_inline:
  assumes "inline_message cp ce maxPayload gatewayID ctx payload bytes"
    and "namespace [''service'', serviceID, ''message''] \<noteq> None"
  shows "nats_send lost cp ce ca maxPayload reply d serviceID gatewayID (ctx_SocketID ctx) (ctx_info ctx) (ctx_message ctx)
    = (case nats_request lost ca ce reply d bytes of Inl err \<Rightarrow> Some err
       | Inr r \<Rightarrow> (case parseMessageAck ca r of Inl err \<Rightarrow> Some err | Inr _ \<Rightarrow> None))"
  using assms by (auto simp: nats_send_def nats_MessageService_def sendEnvelope_def inline_message_def ctx_envelope_def
      split: sum.split)

lemma nats_send_lost:
  assumes "inline_message cp ce maxPayload gatewayID ctx payload bytes"
    and "namespace [''service'', serviceID, ''message''] \<noteq> None"
  shows "failed (nats_send True cp ce ca maxPayload reply d serviceID gatewayID (ctx_SocketID ctx) (ctx_info ctx) (ctx_message ctx))"
  by (simp add: nats_send_inline [OF assms] nats_request_def failed_def)

lemma nats_send_acked:
  assumes "codec_ok ce" "codec_ok ca" "codec_total ca" "reply \<noteq> ''''"
    and m: "inline_message cp ce maxPayload gatewayID ctx payload bytes"
    and ns: "namespace [''service'', serviceID, ''message''] \<noteq> None"
    and room: "length (go_get [] (queues d) (ctx_SocketID ctx)) < queueSize d"
  shows "nats_send False cp ce ca maxPayload reply d serviceID gatewayID (ctx_SocketID ctx) (ctx_info ctx) (ctx_message ctx) = None"
proof -
  obtain spawned d1 where s: "instance_serve ce reply d bytes = ([Ack reply \<lparr>ack_ChunkSubject = '''', ack_Error = ''''\<rparr>], spawned, d1)"
    using instance_serve_inline [OF assms(1) _ assms(4) room] m unfolding inline_message_def by metis
  obtain b where b: "marshal ca \<lparr>ack_ChunkSubject = '''', ack_Error = ''''\<rparr> = Inr b"
    using assms(3) by (auto simp: codec_total_def)
  have "unmarshal ca b = Inr \<lparr>ack_ChunkSubject = '''', ack_Error = ''''\<rparr>" using codec_okD [OF assms(2) b] .
  with s b show ?thesis
    by (simp add: nats_send_inline [OF m ns] nats_request_def pump_reply_def List.map_filter_def parseMessageAck_def
        slowConsumerReply_def)
qed

section \<open>The fail-over loop\<close>

lemma handle_loop_fails_over:
  assumes "gw_ok w" "range_ok rg" "go_has (gw_sockets (w_gw w)) (ctx_SocketID ctx)"
    and "gw_pin w (ctx_SocketID ctx) n = None" "candidates w n \<noteq> {}" "\<And>i. i \<in> candidates w n \<Longrightarrow> failed (send k i)"
  shows "\<exists>i w3. i \<in> candidates w n \<and> handle_loop send rg ctx n k w = handle_loop send rg ctx n (Suc k) w3
    \<and> gw_ok w3 \<and> gw_pin w3 (ctx_SocketID ctx) n = None \<and> candidates w3 n = candidates w n - {i}
    \<and> w_out w3 = w_out w @ [message_effect i ctx w] \<and> gw_ID (w_gw w3) = gw_ID (w_gw w)"
proof -
  let ?s = "ctx_SocketID ctx"
  have gsi: "gw_gsi (w_gw w) \<noteq> None" using assms(5) by (auto simp: candidates_def)
  from assms(1) gsi show ?thesis
  proof (cases rule: gw_MapSocket_cases [of w n ?s])
    case (new i w1)
    have i: "i \<noteq> ''''" using new(3) assms(1) candidates_registered registered_nonempty by blast
    obtain e where e: "send k i = Some e" "\<not> errors_Is e ErrSlowConsumer"
      using assms(6) [OF new(3)] by (auto simp: failed_def)
    let ?w2 = "emit (message_effect i ctx w1) w1"
    let ?w3 = "with_gsi (UnsetService (rg_from (3 * k) rg) i) ?w2"
    have loop: "handle_loop send rg ctx n k w = handle_loop send rg ctx n (Suc k) ?w3"
      by (subst handle_loop.simps) (simp add: new(1) i e)
    have ok2: "gw_ok ?w2" using gw_MapSocket_ok [OF assms(1,3), of n] by (simp add: new(1))
    have rg: "range_ok (rg_from (3 * k) rg)" using assms(2) by simp
    obtain r where r: "gw_gsi (w_gw ?w2) = Some r" using new(10) by auto
    have "gsi_ok (w_heap ?w2, r)" using ok2 r unfolding gw_ok_def by blast
    from pinned_UnsetService [OF this rg, of i ?s n] have pin: "gw_pin ?w3 ?s n = None"
      using new(4) r by (simp add: gw_pin_def split: if_splits)
    have cand: "candidates ?w3 n = candidates w n - {i}"
      using with_gsi_Unset_sets(1) [OF ok2 rg, of i n] new(5) by simp
    show ?thesis
      using new loop pin cand with_gsi_Unset_ok [OF ok2 rg, of i]
      by (intro exI [of _ i] exI [of _ ?w3]) (auto simp: message_effect_def)
  qed (use assms in auto)
qed

text \<open>
  C34. A lost acknowledgement duplicates a message: when the NATS request to the first instance times
  out although its pump has queued the message, the gateway takes the instance out of its index and
  sends the same message to a second instance. Both then have it in the queue of the socket, and the
  client's socket is pinned to the second one only.
\<close>

theorem lost_ack_duplicates:
  assumes "gw_ok w" and "range_ok rg" and "go_has (gw_sockets (w_gw w)) (ctx_SocketID ctx)"
    and "gw_pin w (ctx_SocketID ctx) n = None" and "{a, b} \<subseteq> candidates w n" and "a \<noteq> b"
    and "codec_ok ce" and "codec_ok ca" and "codec_total ca" and "reply \<noteq> ''''"
    and "inline_message cp ce maxPayload (gw_ID (w_gw w)) ctx payload bytes"
    and "\<And>i. i \<in> candidates w n \<Longrightarrow> namespace [''service'', i, ''message''] \<noteq> None"
    and "\<And>i. i \<in> candidates w n \<Longrightarrow> length (go_get [] (queues (d i)) (ctx_SocketID ctx)) < queueSize (d i)"
    and "\<And>k i. send k i = nats_send (k = 0) cp ce ca maxPayload reply (d i) i (gw_ID (w_gw w)) (ctx_SocketID ctx)
           (ctx_info ctx) (ctx_message ctx)"
  shows "\<exists>i j w'. i \<noteq> j \<and> handle_loop send rg ctx n 0 w = Some w'
    \<and> w_out w' = w_out w @ [message_effect i ctx w, message_effect j ctx w]
    \<and> gw_pin w' (ctx_SocketID ctx) n = Some j
    \<and> (\<forall>x\<in>{i, j}. go_get [] (queues (snd (snd (instance_serve ce reply (d x) bytes)))) (ctx_SocketID ctx)
          = go_get [] (queues (d x)) (ctx_SocketID ctx) @ [(reply, ctx_envelope (gw_ID (w_gw w)) ctx payload)])"
proof -
  let ?s = "ctx_SocketID ctx"
  have "candidates w n \<noteq> {}" using assms(5) by auto
  moreover have "failed (send 0 i)" if "i \<in> candidates w n" for i
    using nats_send_lost [OF assms(11) assms(12) [OF that]] by (simp add: assms(14))
  ultimately obtain i w3 where w3: "i \<in> candidates w n" "handle_loop send rg ctx n 0 w = handle_loop send rg ctx n (Suc 0) w3"
    "gw_ok w3" "gw_pin w3 ?s n = None" "candidates w3 n = candidates w n - {i}"
    "w_out w3 = w_out w @ [message_effect i ctx w]" "gw_ID (w_gw w3) = gw_ID (w_gw w)"
    using handle_loop_fails_over [OF assms(1-4), of send 0] by auto
  have sent: "send (Suc 0) j = None" if "j \<in> candidates w3 n" for j
  proof -
    have "j \<in> candidates w n" using that w3(5) by simp
    from nats_send_acked [OF assms(7-11) assms(12) [OF this] assms(13) [OF this]] show ?thesis by (simp add: assms(14))
  qed
  have "candidates w3 n \<noteq> {}" using assms(5,6) w3(5) by auto
  then obtain j w' where j: "j \<in> candidates w3 n" "handle_loop send rg ctx n (Suc 0) w3 = Some w'"
    "gw_pin w' ?s n = Some j" "w_out w' = w_out w3 @ [message_effect j ctx w3]"
    using handle_loop_unpinned [OF w3(3,4), where send = send and k = "Suc 0" and rg = rg] sent by blast
  have queued: "go_get [] (queues (snd (snd (instance_serve ce reply (d x) bytes)))) ?s
      = go_get [] (queues (d x)) ?s @ [(reply, ctx_envelope (gw_ID (w_gw w)) ctx payload)]"
    if "x \<in> candidates w n" for x
  proof -
    have "marshal ce (ctx_envelope (gw_ID (w_gw w)) ctx payload) = Inr bytes" using assms(11) by (simp add: inline_message_def)
    from instance_serve_inline [OF assms(7) this assms(10) assms(13) [OF that]] show ?thesis by (metis snd_conv)
  qed
  show ?thesis
    using w3 j queued by (intro exI [of _ i] exI [of _ j] exI [of _ w']) (auto simp: message_effect_def)
qed

definition lost_gw :: "(string, unit) gworld" where
  "lost_gw = register_socket sample_ctx sample_gw"

definition lost_payload_codec :: "unit MessagePayload codec" where
  "lost_payload_codec = table_codec [(payload_of (ctx_message sample_ctx), [1, 2, 2])]"

definition lost_envelope_codec :: "ServiceMessageEnvelope codec" where
  "lost_envelope_codec = table_codec [(ctx_envelope ''G'' sample_ctx [1, 2, 2], [0, 1, 2, 2])]"

definition lost_send :: "nat \<Rightarrow> string \<Rightarrow> go_error option" where
  "lost_send k i = nats_send (k = 0) lost_payload_codec lost_envelope_codec plain_ack_codec 1024 ''_INBOX.r'' (new_pump 0)
     i ''G'' (ctx_SocketID sample_ctx) (ctx_info sample_ctx) (ctx_message sample_ctx)"

lemma lost_gw_candidates: "candidates lost_gw ''chat'' = {''A'', ''B''}"
proof -
  have "map_option (\<lambda>r. map (\<lambda>d. sd_ID (w_heap lost_gw d)) (insts r ''chat'')) (gw_gsi (w_gw lost_gw))
      = Some [''A'', ''B'']" by code_simp
  then show ?thesis by (auto simp: candidates_def simp flip: set_map)
qed

theorem lost_ack_duplicates_witness:
  "\<exists>i j w'. i \<noteq> j \<and> handle_loop lost_send rg_id sample_ctx ''chat'' 0 lost_gw = Some w'
    \<and> w_out w' = [message_effect i sample_ctx lost_gw, message_effect j sample_ctx lost_gw]"
proof -
  have ok: "gw_ok lost_gw" by (simp add: lost_gw_def register_socket_ok sample_gw_ok)
  have s: "ctx_SocketID sample_ctx = ''s1''" by (simp add: sample_ctx_def)
  have is_open: "go_has (gw_sockets (w_gw lost_gw)) (ctx_SocketID sample_ctx)" by (simp add: lost_gw_def)
  have pin: "gw_pin lost_gw (ctx_SocketID sample_ctx) ''chat'' = None" by code_simp
  have gid: "gw_ID (w_gw lost_gw) = ''G''" and out: "w_out lost_gw = []"
    by (simp_all add: lost_gw_def sample_gw_def NewGateway_def register_socket_def set_sockets_def)
  have inline: "inline_message lost_payload_codec lost_envelope_codec 1024 (gw_ID (w_gw lost_gw)) sample_ctx [1, 2, 2] [0, 1, 2, 2]"
    by (simp add: inline_message_def gid lost_payload_codec_def lost_envelope_codec_def table_codec_def)
  have "namespace [''service'', ''A'', ''message''] \<noteq> None" "namespace [''service'', ''B'', ''message''] \<noteq> None"
    by code_simp+
  then have ns: "namespace [''service'', i, ''message''] \<noteq> None" if "i \<in> candidates lost_gw ''chat''" for i
    using that lost_gw_candidates by auto
  have room: "length (go_get [] (queues (new_pump 0)) (ctx_SocketID sample_ctx)) < queueSize (new_pump 0)"
    by (simp add: new_pump_def newSocketDispatcher_def dispatchQueueSize_def DefaultDispatchQueueSize_def)
  have ce: "codec_ok lost_envelope_codec" by (simp add: lost_envelope_codec_def table_codec_ok)
  have "{''A'', ''B''} \<subseteq> candidates lost_gw ''chat''" "''A'' \<noteq> ''B''" by (simp_all add: lost_gw_candidates)
  from lost_ack_duplicates [OF ok range_ok_id is_open pin this ce plain_ack_codec_ok _ inline ns room, of "''_INBOX.r''" lost_send]
  show ?thesis unfolding out by (auto simp: lost_send_def gid)
qed

end
