(* ===== verification/Pipeline.thy ===== *)
theory Pipeline
  imports MessageProps Connection
begin

text \<open>
  The way of a message on the receiving side of the NATS transport: the pump dispatches it to the queue
  of its socket, the socket's worker decodes it and calls the handler, the handler puts it into the
  mailbox of the connection, and the router reads it. The dispatcher gives the contract that the
  connection relies on, calls one at a time, so the order holds from end to end.
\<close>

section \<open>The composition\<close>

text \<open>
  The dispatcher and one connection. \<open>pl_handled\<close> tells whether the worker that serves the socket has
  already called the handler for the work it holds.
\<close>

record ('w, 'v) pipeline =
  pl_disp :: "'w dsys"
  pl_conn :: "'v csys"
  pl_handled :: bool

text \<open>
  What the worker of a socket passes to the handler: nothing when the payload could not be received or
  decoded. The work is the reply subject and the envelope.
\<close>

definition service_deliver :: "'v MessagePayload codec \<Rightarrow> (string \<times> ServiceMessageEnvelope \<Rightarrow> go_error + byte list)
    \<Rightarrow> string \<times> ServiceMessageEnvelope \<Rightarrow> 'v SocketMessage option" where
  "service_deliver cp receive work =
     map_option (\<lambda>(gatewayID, socketID, connInfo, msg). msg) (deliverServiceMessage cp (receive work) (snd work))"

text \<open>A step of the dispatcher that is not the socket's worker taking or finishing work.\<close>

definition ds_elsewhere :: "string \<Rightarrow> 'w dsys \<Rightarrow> 'w dsys \<Rightarrow> bool" where
  "ds_elsewhere k d d' \<longleftrightarrow> ds_step d d' \<and> of_socket k (ds_started d') = of_socket k (ds_started d)
     \<and> of_socket k (ds_finished d') = of_socket k (ds_finished d)"

inductive pipe_step :: "('w \<Rightarrow> 'v SocketMessage option) \<Rightarrow> string \<Rightarrow> ('w, 'v) pipeline \<Rightarrow> ('w, 'v) pipeline \<Rightarrow> bool"
  for deliver k where
  pipe_elsewhere: "ds_elsewhere k (pl_disp s) d \<Longrightarrow> pipe_step deliver k s (s\<lparr>pl_disp := d\<rparr>)"
| pipe_take: "ds_step (pl_disp s) d \<Longrightarrow> of_socket k (ds_started d) = of_socket k (ds_started (pl_disp s)) @ [w]
     \<Longrightarrow> of_socket k (ds_finished d) = of_socket k (ds_finished (pl_disp s))
     \<Longrightarrow> pipe_step deliver k s (s\<lparr>pl_disp := d, pl_handled := False\<rparr>)"
| pipe_call: "in_hand (live_workers k (ds_workers (pl_disp s))) = [w] \<Longrightarrow> \<not> pl_handled s \<Longrightarrow> deliver w = Some msg
     \<Longrightarrow> pipe_step deliver k s (s\<lparr>pl_handled := True, pl_conn := (pl_conn s)
          \<lparr>cs_pending := cs_pending (pl_conn s) @ [msg], cs_called := cs_called (pl_conn s) @ [msg]\<rparr>\<rparr>)"
| pipe_drop: "in_hand (live_workers k (ds_workers (pl_disp s))) = [w] \<Longrightarrow> \<not> pl_handled s \<Longrightarrow> deliver w = None
     \<Longrightarrow> pipe_step deliver k s (s\<lparr>pl_handled := True\<rparr>)"
| pipe_finish: "ds_step (pl_disp s) d \<Longrightarrow> of_socket k (ds_started d) = of_socket k (ds_started (pl_disp s))
     \<Longrightarrow> of_socket k (ds_finished d) = of_socket k (ds_finished (pl_disp s)) @ [w]
     \<Longrightarrow> pl_handled s \<Longrightarrow> cs_pending (pl_conn s) = [] \<Longrightarrow> pipe_step deliver k s (s\<lparr>pl_disp := d, pl_handled := False\<rparr>)"
| pipe_conn: "conn_step (pl_conn s) c \<Longrightarrow> cs_called c = cs_called (pl_conn s) \<Longrightarrow> pipe_step deliver k s (s\<lparr>pl_conn := c\<rparr>)"

definition pipe_new :: "nat \<Rightarrow> ('w, 'v) pipeline \<Rightarrow> bool" where
  "pipe_new n s \<longleftrightarrow> pl_disp s = ds_new n \<and> \<not> pl_handled s
     \<and> (\<exists>gatewayID socketID info mailboxSize. pl_conn s = cs_new (NewConnection gatewayID socketID info mailboxSize))"

section \<open>The invariant\<close>

definition pipe_ok :: "('w \<Rightarrow> 'v SocketMessage option) \<Rightarrow> string \<Rightarrow> ('w, 'v) pipeline \<Rightarrow> bool" where
  "pipe_ok deliver k s \<longleftrightarrow> ds_ok (pl_disp s) \<and> conn_order (pl_conn s)
     \<and> cs_called (pl_conn s) = List.map_filter deliver (of_socket k (ds_finished (pl_disp s)))
          @ (if pl_handled s then List.map_filter deliver (in_hand (live_workers k (ds_workers (pl_disp s)))) else [])
     \<and> (cs_pending (pl_conn s) \<noteq> [] \<longrightarrow> pl_handled s)
     \<and> (pl_handled s \<longrightarrow> in_hand (live_workers k (ds_workers (pl_disp s))) \<noteq> [])"

lemma pipe_okD:
  assumes "pipe_ok deliver k s"
  shows "sock_ok (pl_disp s) k" "conn_order (pl_conn s)" "ds_ok (pl_disp s)"
  using assms by (simp_all add: pipe_ok_def ds_ok_def)

lemma map_filter_append [simp]: "List.map_filter f (xs @ ys) = List.map_filter f xs @ List.map_filter f ys"
  by (simp add: List.map_filter_def)

lemma map_filter_Cons: "List.map_filter f (x # xs) = (case f x of None \<Rightarrow> [] | Some y \<Rightarrow> [y]) @ List.map_filter f xs"
  by (simp add: List.map_filter_def split: option.split)

lemma map_filter_Nil [simp]: "List.map_filter f [] = []"
  by (simp add: List.map_filter_def)

lemma ds_step_ok: "ds_step d d' \<Longrightarrow> ds_ok d \<Longrightarrow> ds_ok d'"
  using disp.step_inv by blast

lemma in_hand_by_socket:
  assumes "sock_ok d k" "sock_ok d' k" "of_socket k (ds_started d') = of_socket k (ds_started d)"
    "of_socket k (ds_finished d') = of_socket k (ds_finished d)"
  shows "in_hand (live_workers k (ds_workers d')) = in_hand (live_workers k (ds_workers d))"
  using assms by (simp add: sock_ok_def)

lemma pipe_step_ok:
  assumes "pipe_step deliver k s t" "pipe_ok deliver k s"
  shows "pipe_ok deliver k t"
  using assms(1)
proof cases
  case (pipe_elsewhere d)
  have "ds_ok d" using pipe_elsewhere(2) pipe_okD(3) [OF assms(2)] ds_step_ok by (auto simp: ds_elsewhere_def)
  moreover from this have "in_hand (live_workers k (ds_workers d)) = in_hand (live_workers k (ds_workers (pl_disp s)))"
    using in_hand_by_socket [OF pipe_okD(1) [OF assms(2)]] pipe_elsewhere(2) by (simp add: ds_elsewhere_def ds_ok_def)
  ultimately show ?thesis
    using assms(2) pipe_elsewhere by (simp add: pipe_ok_def ds_elsewhere_def)
next
  case (pipe_take d w)
  have ok: "ds_ok d" using pipe_take(2) pipe_okD(3) [OF assms(2)] by (rule ds_step_ok)
  have "in_hand (live_workers k (ds_workers (pl_disp s))) @ [w] = in_hand (live_workers k (ds_workers d))"
    using ds_okD(1) [OF ok, of k] pipe_okD(1) [OF assms(2)] pipe_take(3,4) by (simp add: sock_ok_def)
  then have "in_hand (live_workers k (ds_workers (pl_disp s))) = []"
    by (simp add: in_hand_def split: if_splits)
  then show ?thesis using assms(2) ok pipe_take by (auto simp: pipe_ok_def)
next
  case (pipe_call w msg)
  let ?c = "(pl_conn s)\<lparr>cs_pending := cs_pending (pl_conn s) @ [msg], cs_called := cs_called (pl_conn s) @ [msg]\<rparr>"
  have idle: "cs_pending (pl_conn s) = []" using assms(2) pipe_call(3) by (auto simp: pipe_ok_def)
  have "conn_serial (pl_conn s) ?c" by (rule conn_serial [OF cs_handle]) (simp add: idle)
  then have "conn_order ?c" using pipe_okD(2) [OF assms(2)] by (rule conn_serial_order)
  then show ?thesis using assms(2) pipe_call by (simp add: pipe_ok_def map_filter_Cons)
next
  case (pipe_drop w)
  then show ?thesis using assms(2) by (auto simp: pipe_ok_def map_filter_Cons)
next
  case (pipe_finish d w)
  have ok: "ds_ok d" using pipe_finish(2) pipe_okD(3) [OF assms(2)] by (rule ds_step_ok)
  have "in_hand (live_workers k (ds_workers (pl_disp s))) = w # in_hand (live_workers k (ds_workers d))"
    using ds_okD(1) [OF ok, of k] pipe_okD(1) [OF assms(2)] pipe_finish(3,4) by (simp add: sock_ok_def)
  then have "in_hand (live_workers k (ds_workers (pl_disp s))) = [w]"
    by (simp add: in_hand_def split: if_splits)
  then show ?thesis using assms(2) ok pipe_finish by (simp add: pipe_ok_def)
next
  case (pipe_conn c)
  have "conn_serial (pl_conn s) c" using pipe_conn by (auto intro: conn_serial)
  then have "conn_order c" using pipe_okD(2) [OF assms(2)] by (rule conn_serial_order)
  moreover have "cs_pending c \<noteq> [] \<longrightarrow> cs_pending (pl_conn s) \<noteq> []"
    using pipe_conn(2,3) by cases auto
  ultimately show ?thesis using assms(2) pipe_conn by (auto simp: pipe_ok_def)
qed

interpretation pipe: invariant_machine "pipe_new n" "pipe_step deliver k" "pipe_ok deliver k" for n deliver k
proof
  show "pipe_ok deliver k s" if "pipe_new n s" for s :: "('a, 'b) pipeline"
  proof -
    have "ds_ok (pl_disp s)" using that disp.init_inv [of "pl_disp s" n] by (simp add: pipe_new_def)
    moreover have "conn_order (pl_conn s)" using that conn_serial.init_inv [of "pl_conn s"] by (simp add: pipe_new_def)
    ultimately show ?thesis using that by (auto simp: pipe_ok_def pipe_new_def ds_new_def cs_new_def of_socket_def)
  qed
qed (rule pipe_step_ok)

section \<open>Properties\<close>


text \<open>A message that is dispatched, taken, passed to the handler, and put into the mailbox.\<close>

definition pipe_work :: "string \<times> ServiceMessageEnvelope" where
  "pipe_work = (''_INBOX.r'', service_envelope ''g1'' ''k1'' demo_info demo_msg [1, 2, 3, 2, 3] False)"

definition pipe_sample :: "(string \<times> ServiceMessageEnvelope, nat) pipeline" where
  "pipe_sample = \<lparr>pl_disp = ds_new 2, pl_conn = cs_new (NewConnection ''g1'' ''k1'' demo_info 64), pl_handled = False\<rparr>"

lemma pipe_work_deliver: "service_deliver demo_payload_codec receive pipe_work = Some demo_msg"
  by (simp add: service_deliver_def pipe_work_def deliverServiceMessage_def service_envelope_def demo_payload_codec_def
      table_codec_def payload_of_def)

lemma pipe_sample_run:
  obtains s where "(pipe_step (service_deliver demo_payload_codec receive) ''k1'')\<^sup>*\<^sup>* pipe_sample s"
    "\<not> conn_canceled (cs_conn (pl_conn s))" "conn_mailbox (cs_conn (pl_conn s)) = [demo_msg]"
proof -
  let ?step = "pipe_step (service_deliver demo_payload_codec receive) ''k1''"
  let ?w = pipe_work let ?c = "NewConnection ''g1'' ''k1'' demo_info 64 :: nat Connection"
  let ?d1 = "\<lparr>queueSize = 2, queues = [(''k1'', [?w])], wg = 1\<rparr>"
  let ?x1 = "(ds_new 2)\<lparr>ds_d := ?d1, ds_workers := {#(''k1'', Looping)#}, ds_accepted := [(''k1'', ?w)]\<rparr>"
  let ?d2 = "\<lparr>queueSize = 2, queues = [(''k1'', [])], wg = 1\<rparr>"
  let ?x2 = "?x1\<lparr>ds_d := ?d2, ds_workers := {#(''k1'', Working ?w)#}, ds_started := [(''k1'', ?w)]\<rparr>"
  let ?s1 = "pipe_sample\<lparr>pl_disp := ?x1\<rparr>" let ?s2 = "?s1\<lparr>pl_disp := ?x2, pl_handled := False\<rparr>"
  let ?c3 = "(cs_new ?c)\<lparr>cs_pending := [demo_msg], cs_called := [demo_msg]\<rparr>"
  let ?s3 = "?s2\<lparr>pl_handled := True, pl_conn := ?c3\<rparr>"
  let ?c4 = "?c3\<lparr>cs_conn := ?c\<lparr>conn_mailbox := [demo_msg]\<rparr>, cs_pending := [], cs_accepted := [demo_msg]\<rparr>"
  have d1: "dispatch ''k1'' ?w (ds_d (ds_new 2)) = (True, True, ?d1)" and d2: "run_take ''k1'' ?d1 = (Some ?w, ?d2)"
    by (simp_all add: dispatch_def run_take_def ds_new_def newSocketDispatcher_def go_get_def go_has_def)
  have x1: "ds_step (ds_new 2) ?x1" using ds_dispatch [OF d1] by (simp add: ds_new_def)
  have x2: "ds_step ?x1 ?x2" using ds_worker [OF ds_take [of ?x1 "''k1''" "{#}" ?w ?d2]] d2 by (simp add: ds_new_def)
  have "?step pipe_sample ?s1"
    using x1 by (intro pipe_elsewhere) (simp add: ds_elsewhere_def pipe_sample_def ds_new_def)
  moreover have "?step ?s1 ?s2"
    using x2 by (intro pipe_take [where w = ?w]) (simp_all add: pipe_sample_def ds_new_def of_socket_def)
  moreover have "?step ?s2 ?s3"
    using pipe_call [of "''k1''" ?s2 ?w "service_deliver demo_payload_codec receive" demo_msg] pipe_work_deliver
    by (simp add: pipe_sample_def cs_new_def)
  moreover have "HandleMessage 0 True demo_msg ?c = Some (?c\<lparr>conn_mailbox := [demo_msg]\<rparr>)" by code_simp
  then have "conn_step ?c3 ?c4"
    using cs_handled [of demo_msg ?c3 True "?c\<lparr>conn_mailbox := [demo_msg]\<rparr>"] by (simp add: cs_new_def NewConnection_def)
  then have "?step ?s3 (?s3\<lparr>pl_conn := ?c4\<rparr>)" by (intro pipe_conn) (simp_all add: cs_new_def)
  ultimately have "?step\<^sup>*\<^sup>* pipe_sample (?s3\<lparr>pl_conn := ?c4\<rparr>)" by auto
  then show thesis by (rule that) (simp_all add: NewConnection_def)
qed


end
