(* ===== verification/Spec2Isabelle.thy ===== *)
theory Spec2Isabelle
  imports GatewayProps LifecycleProps ServiceProps RunLoops Dispatch Namespace MessageProps NatsPubSubProps
    LocalTransportProps SharedDescriptor KeepAlive LocalSystem GatewayThreads Loops LostAck
    Pipeline
begin

text \<open>
  A verification development for Eurus (package \<open>eurus\<close> and its two transports), which puts a fleet of
  WebSocket gateways in front of microservices. Clients talk to a gateway; the gateway routes each
  message by its path to one instance of a service and pins the socket to that instance; services
  announce themselves to gateways, answer through the gateway that owns the socket, and ask by
  heartbeat which of their sockets are still alive.

  \<^bold>\<open>Shared vocabulary.\<close> \<open>Prelude\<close> has Go maps (association lists with distinct keys, \<open>gomap\<close>), the order
  of a \<open>range\<close> over a map as an argument (\<open>range_order\<close>, any permutation is allowed by \<open>range_ok\<close>), the
  functions of Go's \<open>slices\<close> package that the code calls, and the contract \<open>keywise_loop\<close> of a loop whose
  result does not depend on that order. \<open>Machines\<close> has the two contracts every stateful component
  interprets: \<open>invariant_machine\<close> (an invariant that each step keeps) and \<open>refinement_machine\<close> (a
  simulation of a more abstract step relation). \<open>Descriptors\<close> (\<open>route-descriptor.go\<close>,
  \<open>service-descriptor.go\<close>, \<open>gateway-descriptor.go\<close>, \<open>errors.go\<close>, \<open>generate-id.go\<close>) and \<open>Wire\<close> have the
  values that cross the \<open>Transport\<close> interface of \<open>transport.go\<close>.

  \<^bold>\<open>The service index\<close> (\<open>gateway-service-indexer.go\<close>). \<open>Indexer\<close>: the record and one definition per
  method, over a heap of descriptors, because the index shares descriptors by pointer between its two
  lists. \<open>IndexerInv\<close>: the invariant \<open>gsi_ok\<close> and the effect of each method on lists, maps and pins.
  \<open>Registry\<close>: the abstract registry (a map of live instances and a map of pins) and the refinement.
  \<open>IndexProps\<close>: reachable indexes are consistent and refine the registry; least connections;
  stickiness; routing; pruning; unmapping undoes mapping; an instance without a name.

  \<^bold>\<open>The gateway\<close> (\<open>gateway.go\<close>). \<open>Gateway\<close>: its socket table, every handler, the fail-over loop of
  \<open>Handle\<close> (a \<open>partial_function\<close>; not returning would be \<open>None\<close>) and the bodies of its loops; what it does
  to sockets and to the transport is a list of effects in the order in which they happen.
  \<open>GatewayInv\<close>: the invariant \<open>gw_ok\<close>. \<open>GatewayProps\<close>: runs of handlers as events; \<open>Handle\<close> ends and
  delivers once or closes once; closing, pruning and stopping are complete. \<open>GatewayThreads\<close>: the same
  handlers as goroutines of atomic actions under every interleaving of one run; the index and the
  accounting of closes survive any interleaving, the pins survive all but one race, which is the only
  way to leak a pin; the atomic handlers are interleavings.

  \<^bold>\<open>The lifecycle\<close> (\<open>lifecycle.go\<close>). \<open>Lifecycle\<close> models each critical section over contexts and channels
  and composes the calls in progress; \<open>LifecycleProps\<close>: one run at a time, no panic, no lost wake-up, a
  fresh context, readiness. \<open>RunLoops\<close>: \<open>Gateway.Connect\<close> and \<open>Service.Listen\<close> as the sequence of what
  they do, and that they clean up whatever fails. \<open>Loops\<close>: the ticker loops, the default intervals,
  \<open>Ready\<close>, \<open>Close\<close>, and the bound on the record of closed sockets.

  \<^bold>\<open>The service\<close> (\<open>service.go\<close>, \<open>connection.go\<close>). \<open>Connection\<close>: the mailbox of one socket, with concurrent
  calls of \<open>HandleMessage\<close>, \<open>Read\<close> and \<open>HandleClose\<close>; first in, first out, with bounded memory. \<open>Service\<close>,
  \<open>ServiceInv\<close>, \<open>ServiceProps\<close>: the table of connections, the record of closed sockets, every handler
  and loop body; the invariant over all runs; heartbeats; a closed socket does not come back; what a
  failed write does.

  \<^bold>\<open>The NATS transport\<close> (\<open>transport/natstransport\<close>). \<open>Dispatch\<close>: the per-socket queues and workers as a
  step system, order, completeness and draining. \<open>Namespace\<close>: subjects from identifiers, with the bytes
  and runes of Go strings. \<open>Message\<close>, \<open>MessageProps\<close>: envelopes, payloads, acknowledgements, the chunk
  protocol and the pump; round trips and the fate a sender learns. \<open>NatsPubSub\<close>, \<open>NatsPubSubProps\<close>:
  subscriptions, announcements, closures and batched heartbeats.

  \<^bold>\<open>The local transport\<close> (\<open>transport/localtransport\<close>). \<open>LocalTransport\<close>, \<open>LocalTransportProps\<close>: its
  registries under one mutex; a broadcast reaches exactly the live subscribers (locale \<open>broadcast\<close>, one
  interpretation per stream). \<open>SharedDescriptor\<close>: two gateways that share a descriptor.

  \<^bold>\<open>The system.\<close> \<open>Pipeline\<close>: the receiving side over NATS, from the pump through the dispatcher and a
  worker to the mailbox and the router, in order. \<open>LostAck\<close>: the fail-over loop over NATS when an
  acknowledgement is lost.
  \<open>KeepAlive\<close>: a gateway's announcements and a service's answers with a clock; a reachable service is
  never pruned. \<open>LocalSystem\<close>: a gateway and services on one local transport; a message reaches one
  service and its reply comes back, a disconnect reaches every service.

  \<^bold>\<open>Conventions.\<close> Errors are the datatype \<open>go_error\<close>; a call that has to wait or that panics is \<open>None\<close>.
  Times are nanoseconds as integers. The handler IDs of the local transport are 64-bit words, and the
  theorem on broadcasts covers the runs in which the counter has not wrapped. Chunks carry at most
  16384 bytes and heartbeats at most 4096 sockets, as in the code. All loops are total functions,
  by structural recursion or a measure, except the fail-over loop, which is proved to return: each
  failure removes an instance, so there are at most as many rounds as instances. No fuel is used.
  Properties that hold for every order of a map range quantify over \<open>range_ok\<close> orders.

  \<^bold>\<open>Parameters.\<close> What the code takes from packages outside this repository is an argument: matching and
  printing of Velaros patterns, msgpack (a \<open>codec\<close>, with decoding after encoding as the only law), the
  answers of the NATS client, the random source, the clock, and the result of every send. Hypotheses
  about them are stated in the theorems that use them, each with a witness.

  \<^bold>\<open>Not modelled.\<close> The NATS client, msgpack, Velaros and debug tracing; deadlines of requests and
  flushes, which appear only as the error of a call; the memory model of Go below its mutexes, channels
  and atomic pointers; two overlapping runs of one gateway inside \<open>GatewayThreads\<close>. \<open>transport.go\<close> is an
  interface without code; both of its implementations are modelled.

  \<^bold>\<open>What is left to do.\<close> A common contract of both transports for addressed messages;
  interleavings of the service's handlers, as for the gateway; the errgroup of \<open>Connect\<close> with its
  goroutines.
\<close>

end
